theory Spec2Isabelle
  imports Main "HOL-Library.AList"
begin

section \<open>Python values\<close>

text \<open>
  The Foreman client hands the script decoded JSON. A value is \<open>None\<close>, a boolean, an
  integer, a string, a list or a dictionary with string keys (kept as an association
  list: \<open>map_of\<close> is the lookup). Strings are byte strings (Python 2 \<open>str\<close>); floats and
  the non-ASCII behaviour of \<open>unicode\<close> objects are outside the model.
\<close>

datatype pyval =
    PNone
  | PBool bool
  | PInt int
  | PStr string
  | PList "pyval list"
  | PDict "(string \<times> pyval) list"

text \<open>
  What a hashable value is as a dictionary key: \<open>True\<close> and \<open>1\<close> are the same key in
  Python, lists and dictionaries are unhashable (\<open>TypeError\<close>).
\<close>

datatype pykey = KNone | KInt int | KStr string

datatype error =
    AttributeError
  | TypeError
  | KeyError
  | ClientError string
  | NoSectionError string
  | NoOptionError string string
  | Exception string
  | SystemExit int

fun py_key :: "pyval \<Rightarrow> error + pykey" where
  "py_key PNone = Inr KNone"
| "py_key (PBool b) = Inr (KInt (if b then 1 else 0))"
| "py_key (PInt i) = Inr (KInt i)"
| "py_key (PStr s) = Inr (KStr s)"
| "py_key (PList xs) = Inl TypeError"
| "py_key (PDict d) = Inl TypeError"

text \<open>\<open>d.get(k)\<close> on a dictionary: \<open>None\<close> for a key that is not there.\<close>

definition dict_get :: "(string \<times> pyval) list \<Rightarrow> string \<Rightarrow> pyval" where
  "dict_get d k = (case map_of d k of None \<Rightarrow> PNone | Some v \<Rightarrow> v)"

text \<open>\<open>x.get(k)\<close> on any value: only a dictionary has the method.\<close>

fun py_get :: "pyval \<Rightarrow> string \<Rightarrow> error + pyval" where
  "py_get (PDict d) k = Inr (dict_get d k)"
| "py_get _ k = Inl AttributeError"

text \<open>\<open>s.lower()\<close>: only a string has the method; ASCII letters are lower-cased.\<close>

definition lower_char :: "char \<Rightarrow> char" where
  "lower_char c =
     (let n = (of_char c :: nat) in if 65 \<le> n \<and> n \<le> 90 then char_of (n + 32) else c)"

fun py_lower :: "pyval \<Rightarrow> error + pyval" where
  "py_lower (PStr s) = Inr (PStr (map lower_char s))"
| "py_lower _ = Inl AttributeError"

text \<open>Decimal digits of an integer, as \<open>str\<close> prints it.\<close>

fun digits :: "nat \<Rightarrow> string" where
  "digits n =
     (if n < 10 then [''0123456789'' ! n]
      else digits (n div 10) @ [''0123456789'' ! (n mod 10)])"

declare digits.simps [simp del]

definition show_int :: "int \<Rightarrow> string" where
  "show_int i = (if i < 0 then CHR ''-'' # digits (nat (- i)) else digits (nat i))"

section \<open>The world outside the script\<close>

text \<open>
  The script talks to Foreman through the python-foreman client, which is not part of
  the repository. It is a parameter of the model:
  \<^item> \<open>connect (url, user, password)\<close> is the constructor \<open>Foreman(...)\<close>: \<open>Some msg\<close>
    when it raises \<open>ConnectionError\<close>;
  \<^item> \<open>show_objs t i\<close> is \<open>getattr(client, "show_<t>s")(i)\<close>, raising or returning a value;
  \<^item> \<open>index_hosts p\<close> is \<open>client.index_hosts(page=p)\<close>, raising or returning a list;
  \<^item> \<open>py_repr\<close> is Python's rendering of a list or dictionary inside \<open>str.format\<close>,
    which depends on the interpreter's dictionary order.
\<close>

record env =
  connect :: "string \<times> string \<times> string \<Rightarrow> string option"
  show_objs :: "string \<Rightarrow> pyval \<Rightarrow> error + pyval"
  index_hosts :: "int \<Rightarrow> error + pyval list"
  py_repr :: "pyval \<Rightarrow> string"

text \<open>\<open>"{0}".format(x)\<close> for one value.\<close>

fun py_format :: "env \<Rightarrow> pyval \<Rightarrow> string" where
  "py_format env PNone = ''None''"
| "py_format env (PBool b) = (if b then ''True'' else ''False'')"
| "py_format env (PInt i) = show_int i"
| "py_format env (PStr s) = s"
| "py_format env v = py_repr env v"

section \<open>State of a \<open>ForemanInventory\<close> object\<close>

datatype call = IndexHosts int | ShowObj string pyval

type_synonym host_desc = "(string \<times> pyval) list"

datatype gval = HostNames "pyval list" | MetaDict "(string \<times> (pyval \<times> host_desc) list) list"

text \<open>
  The dictionary an inventory operation returns: a key is a hostgroup label or
  \<open>'_meta'\<close>, a value a list of host names or the dictionary \<open>{'hostvars': ...}\<close>.
\<close>

type_synonym inventory = "(pykey \<times> gval) list"

text \<open>
  \<open>cache\<close> is \<open>self._cache\<close> (object type, then key, then the raw client answer) and
  \<open>inventory\<close> is \<open>self.inventory\<close>. The other two fields observe the run and are read by
  no operation: \<open>calls\<close> lists the client calls in the order they are made, \<open>info_log\<close>
  the arguments of the invocations of \<open>get_host_info\<close>.
\<close>

record state =
  cache :: "(string \<times> (pykey \<times> pyval) list) list"
  inventory :: inventory
  calls :: "call list"
  info_log :: "pyval list"

type_synonym 'a M = "state \<Rightarrow> (error + 'a) \<times> state"

definition returnM :: "'a \<Rightarrow> 'a M" where
  "returnM v s = (Inr v, s)"

definition bindM :: "'a M \<Rightarrow> ('a \<Rightarrow> 'b M) \<Rightarrow> 'b M" where
  "bindM m f s = (case m s of (Inl e, s') \<Rightarrow> (Inl e, s') | (Inr v, s') \<Rightarrow> f v s')"

definition liftM :: "error + 'a \<Rightarrow> 'a M" where
  "liftM r s = (r, s)"

definition bindS :: "error + 'a \<Rightarrow> ('a \<Rightarrow> error + 'b) \<Rightarrow> error + 'b" where
  "bindS r f = (case r of Inl e \<Rightarrow> Inl e | Inr v \<Rightarrow> f v)"

section \<open>\<open>ForemanInventory\<close>\<close>

definition empty_inventory :: inventory where
  "empty_inventory = [(KStr ''_meta'', MetaDict [(''hostvars'', [])])]"

definition cache_keys :: "string list" where
  "cache_keys = [''operatingsystem'', ''hostgroup'', ''environment'', ''model'',
                 ''compute_resource'', ''domain'', ''subnet'', ''architecture'', ''host'']"

definition empty_cache :: "(string \<times> (pykey \<times> pyval) list) list" where
  "empty_cache = map (\<lambda>i. (i, [])) cache_keys"

definition init_state :: state where
  "init_state = \<lparr>cache = empty_cache, inventory = empty_inventory, calls = [], info_log = []\<rparr>"

text \<open>\<open>__init__\<close>: the fields, then the client; an unreachable API is re-raised.\<close>

definition foreman_init :: "env \<Rightarrow> string \<Rightarrow> string \<Rightarrow> string \<Rightarrow> error + state" where
  "foreman_init env username password foreman_url =
     (case connect env (foreman_url, username, password) of
        Some e \<Rightarrow> Inl (Exception (''It looks like Foreman's API is unreachable. Error was: '' @ e))
      | None \<Rightarrow> Inr init_state)"

text \<open>\<open>_get_object_from_id\<close> (lines 246-256).\<close>

definition get_object_from_id :: "env \<Rightarrow> string \<Rightarrow> pyval \<Rightarrow> pyval M" where
  "get_object_from_id env obj_type obj_id s =
     (if obj_id = PNone then (Inr PNone, s)
      else case map_of (cache s) obj_type of
        None \<Rightarrow> (Inl AttributeError, s)
      | Some tc \<Rightarrow>
          (case py_key obj_id of
             Inl e \<Rightarrow> (Inl e, s)
           | Inr k \<Rightarrow>
               (case map_of tc k of
                  Some obj \<Rightarrow>
                    (if obj = PNone then
                       (case show_objs env obj_type obj_id of
                          Inl e \<Rightarrow> (Inl e, s\<lparr>calls := calls s @ [ShowObj obj_type obj_id]\<rparr>)
                        | Inr obj' \<Rightarrow>
                            (py_get obj' obj_type,
                             s\<lparr>calls := calls s @ [ShowObj obj_type obj_id],
                               cache := AList.update obj_type (AList.update k obj' tc) (cache s)\<rparr>))
                     else (py_get obj obj_type, s))
                | None \<Rightarrow>
                    (case show_objs env obj_type obj_id of
                       Inl e \<Rightarrow> (Inl e, s\<lparr>calls := calls s @ [ShowObj obj_type obj_id]\<rparr>)
                     | Inr obj' \<Rightarrow>
                         (py_get obj' obj_type,
                          s\<lparr>calls := calls s @ [ShowObj obj_type obj_id],
                            cache := AList.update obj_type (AList.update k obj' tc) (cache s)\<rparr>)))))"

text \<open>The projection at the end of \<open>_get_from_id\<close> (lines 237-244).\<close>

definition display_name :: "env \<Rightarrow> string \<Rightarrow> pyval \<Rightarrow> error + pyval" where
  "display_name env param_type param =
     (if param_type = ''hostgroup'' then py_get param ''label''
      else if param_type = ''operatingsystem'' then
        bindS (py_get param ''name'') (\<lambda>n.
        bindS (py_get param ''major'') (\<lambda>m.
          Inr (PStr (py_format env n @ ''-'' @ py_format env m))))
      else if param_type = ''environment'' then
        bindS (py_get param ''name'') py_lower
      else py_get param ''name'')"

text \<open>\<open>_get_from_id\<close> (lines 221-244).\<close>

definition get_from_id :: "env \<Rightarrow> string \<Rightarrow> pyval \<Rightarrow> pyval M" where
  "get_from_id env param_type param_id =
     bindM (get_object_from_id env param_type param_id) (\<lambda>param.
       if param = PNone then returnM PNone
       else liftM (display_name env param_type param))"

text \<open>\<open>_get_from_type\<close> (lines 218-219).\<close>

definition get_from_type :: "env \<Rightarrow> string \<Rightarrow> pyval \<Rightarrow> pyval M" where
  "get_from_type env param_type host =
     bindM (liftM (py_get host (param_type @ ''_id''))) (get_from_id env param_type)"

text \<open>The three loops of \<open>get_host_info\<close> (lines 170-176).\<close>

fun copy_fields :: "pyval \<Rightarrow> string \<Rightarrow> string list \<Rightarrow> host_desc \<Rightarrow> error + host_desc" where
  "copy_fields meta suffix [] host_desc = Inr host_desc"
| "copy_fields meta suffix (k # ks) host_desc =
     bindS (py_get meta (k @ suffix)) (\<lambda>v.
       copy_fields meta suffix ks (AList.update k v host_desc))"

fun resolve_fields :: "env \<Rightarrow> pyval \<Rightarrow> string list \<Rightarrow> host_desc \<Rightarrow> host_desc M" where
  "resolve_fields env meta [] host_desc = returnM host_desc"
| "resolve_fields env meta (k # ks) host_desc =
     bindM (get_from_type env k meta) (\<lambda>v.
       resolve_fields env meta ks (AList.update k v host_desc))"

text \<open>The guarded lookup of lines 178-182: any exception leaves \<open>host_desc\<close> as it is.\<close>

definition environment_name :: "pyval \<Rightarrow> error + pyval" where
  "environment_name meta =
     bindS (py_get meta ''environment'') (\<lambda>e1.
     bindS (py_get e1 ''environment'') (\<lambda>e2.
     bindS (py_get e2 ''name'') py_lower))"

definition set_environment :: "pyval \<Rightarrow> host_desc \<Rightarrow> host_desc" where
  "set_environment meta host_desc =
     (case environment_name meta of
        Inl e \<Rightarrow> host_desc
      | Inr v \<Rightarrow> AList.update ''environment'' v host_desc)"

definition desc_lookup :: "host_desc \<Rightarrow> string \<Rightarrow> error + pyval" where
  "desc_lookup host_desc k = (case map_of host_desc k of None \<Rightarrow> Inl KeyError | Some v \<Rightarrow> Inr v)"

text \<open>
  The body of \<open>get_host_info\<close> after the early return (lines 170-185): the description
  of the host record \<open>meta\<close>.
\<close>

definition describe_host :: "env \<Rightarrow> pyval \<Rightarrow> host_desc M" where
  "describe_host env meta =
     bindM (liftM (copy_fields meta [] [''id'', ''ip'', ''name'', ''status''] [])) (\<lambda>d1.
     bindM (resolve_fields env meta
              [''model'', ''compute_resource'', ''domain'', ''subnet'',
               ''architecture'', ''hostgroup''] d1) (\<lambda>d2.
     bindM (liftM (copy_fields meta ''_at'' [''created'', ''updated''] d2)) (\<lambda>d3.
     bindM (get_from_type env ''operatingsystem'' meta) (\<lambda>os.
     bindM (liftM (desc_lookup (set_environment meta (AList.update ''os'' os d3)) ''ip''))
       (\<lambda>ip.
         returnM (AList.update ''ansible_ssh_host'' ip
                    (set_environment meta (AList.update ''os'' os d3))))))))"

text \<open>\<open>get_host_info\<close> (lines 163-185).\<close>

definition get_host_info :: "env \<Rightarrow> pyval \<Rightarrow> host_desc M" where
  "get_host_info env host_id s =
     bindM (get_object_from_id env ''host'' host_id) (\<lambda>meta.
       if meta = PNone then returnM [] else describe_host env meta)
       (s\<lparr>info_log := info_log s @ [host_id]\<rparr>)"

text \<open>
  The pagination loop of \<open>get_inventory\<close> (lines 191-197). It runs for as long as the
  client returns non-empty pages: \<open>None\<close> is the run that never leaves the loop.
\<close>

partial_function (option) fetch_hosts ::
  "env \<Rightarrow> int \<Rightarrow> pyval list \<Rightarrow> state \<Rightarrow> ((error + pyval list) \<times> state) option" where
  "fetch_hosts env page hosts s =
     (case index_hosts env page of
        Inl e \<Rightarrow> Some (Inl e, s\<lparr>calls := calls s @ [IndexHosts page]\<rparr>)
      | Inr resp \<Rightarrow>
          if length resp < 1 then Some (Inr hosts, s\<lparr>calls := calls s @ [IndexHosts page]\<rparr>)
          else fetch_hosts env (page + 1) (hosts @ resp)
                 (s\<lparr>calls := calls s @ [IndexHosts page]\<rparr>))"

declare fetch_hosts.simps [code]

text \<open>
  The list \<open>groups[k]\<close> of the \<open>defaultdict(list)\<close> that \<open>append\<close> is called on: a
  dictionary has no \<open>append\<close>.
\<close>

definition group_members :: "inventory \<Rightarrow> pykey \<Rightarrow> error + pyval list" where
  "group_members gs k =
     (case map_of gs k of
        None \<Rightarrow> Inr []
      | Some (HostNames names) \<Rightarrow> Inr names
      | Some (MetaDict d) \<Rightarrow> Inl AttributeError)"

text \<open>The grouping loop of \<open>get_inventory\<close> (lines 200-203).\<close>

fun group_hosts :: "env \<Rightarrow> pyval list \<Rightarrow> inventory \<Rightarrow> inventory M" where
  "group_hosts env [] gs = returnM gs"
| "group_hosts env (host # rest) gs =
     bindM (liftM (bindS (py_get host ''host'') (\<lambda>h. py_get h ''hostgroup_id''))) (\<lambda>gid.
     bindM (get_from_id env ''hostgroup'' gid) (\<lambda>host_group.
     bindM (liftM (bindS (py_get host ''host'') (\<lambda>h. py_get h ''name''))) (\<lambda>server_name.
     bindM (liftM (py_key host_group)) (\<lambda>k.
     bindM (liftM (group_members gs k)) (\<lambda>names.
       group_hosts env rest (AList.update k (HostNames (names @ [server_name])) gs))))))"

text \<open>\<open>get_inventory\<close> (lines 187-204).\<close>

definition get_inventory :: "env \<Rightarrow> state \<Rightarrow> ((error + inventory) \<times> state) option" where
  "get_inventory env s =
     (case fetch_hosts env 1 [] s of
        None \<Rightarrow> None
      | Some (Inl e, s') \<Rightarrow> Some (Inl e, s')
      | Some (Inr hosts, s') \<Rightarrow>
          if length hosts < 1 then Some (Inr [], s')
          else Some (group_hosts env hosts [] s'))"

text \<open>
  The first loop of \<open>get_all\<close> (lines 210-212): \<open>hosts[host] = True\<close> keeps the first
  key object of each key. Python 2 leaves the iteration order of a dictionary open; the
  model iterates in insertion order.
\<close>

definition add_host :: "pyval \<Rightarrow> pyval list \<Rightarrow> error + pyval list" where
  "add_host host hosts =
     bindS (py_key host) (\<lambda>k.
       Inr (if Inr k \<in> set (map py_key hosts) then hosts else hosts @ [host]))"

fun add_hosts :: "pyval list \<Rightarrow> pyval list \<Rightarrow> error + pyval list" where
  "add_hosts [] hosts = Inr hosts"
| "add_hosts (host # rest) hosts = bindS (add_host host hosts) (add_hosts rest)"

text \<open>Iterating over \<open>groups[group]\<close>: the elements of a list, the keys of a dictionary.\<close>

fun members :: "gval \<Rightarrow> pyval list" where
  "members (HostNames names) = names"
| "members (MetaDict d) = map (\<lambda>(k, v). PStr k) d"

fun collect_hosts :: "inventory \<Rightarrow> pyval list \<Rightarrow> error + pyval list" where
  "collect_hosts [] hosts = Inr hosts"
| "collect_hosts ((g, v) # gs) hosts = bindS (add_hosts (members v) hosts) (collect_hosts gs)"

text \<open>The second loop of \<open>get_all\<close> (lines 213-214).\<close>

fun host_infos :: "env \<Rightarrow> pyval list \<Rightarrow> (pyval \<times> host_desc) list M" where
  "host_infos env [] = returnM []"
| "host_infos env (host # rest) =
     bindM (get_host_info env host) (\<lambda>d.
     bindM (host_infos env rest) (\<lambda>ds. returnM ((host, d) # ds)))"

text \<open>\<open>get_all\<close> (lines 206-216).\<close>

definition get_all :: "env \<Rightarrow> state \<Rightarrow> ((error + inventory) \<times> state) option" where
  "get_all env s =
     (case get_inventory env s of
        None \<Rightarrow> None
      | Some (Inl e, s') \<Rightarrow> Some (Inl e, s')
      | Some (Inr gs, s') \<Rightarrow>
          Some (bindM (liftM (collect_hosts gs [])) (\<lambda>hosts.
                bindM (host_infos env hosts) (\<lambda>hostvars.
                  returnM (AList.update (KStr ''_meta'') (MetaDict [(''hostvars'', hostvars)])
                             gs))) s'))"

section \<open>\<open>CLIMain\<close>\<close>

text \<open>
  The parsed ini file, as \<open>ConfigParser.SafeConfigParser\<close> (Python 2 standard library,
  constructed with its defaults at line 103) holds it after \<open>read\<close>: the options of the
  \<open>DEFAULT\<close> section and the options of every other section. A file that is not there
  leaves both empty. With the default \<open>allow_no_value=False\<close> every option has a string
  value. Interpolation of \<open>%\<close> in values is not modelled.
\<close>

record config =
  defaults :: "(string \<times> string) list"
  sections :: "(string \<times> (string \<times> string) list) list"

text \<open>
  \<open>config.get(section, option)\<close>: \<open>NoSectionError\<close> for a section that is not there,
  \<open>NoOptionError\<close> for an option found neither in the section nor among the defaults.
\<close>

definition config_get :: "config \<Rightarrow> string \<Rightarrow> string \<Rightarrow> error + pyval" where
  "config_get cfg section option =
     (case map_of (sections cfg) section of
        None \<Rightarrow> Inl (NoSectionError section)
      | Some d \<Rightarrow>
          (case map_of d option of
             Some v \<Rightarrow> Inr (PStr v)
           | None \<Rightarrow>
               (case map_of (defaults cfg) option of
                  Some v \<Rightarrow> Inr (PStr v)
                | None \<Rightarrow> Inl (NoOptionError option section))))"

fun join :: "string \<Rightarrow> string list \<Rightarrow> string" where
  "join sep [] = []"
| "join sep [x] = x"
| "join sep (x # y # ys) = x @ sep @ join sep (y # ys)"

text \<open>The loop of \<open>read_settings\<close> (lines 111-115).\<close>

fun read_required ::
  "config \<Rightarrow> string list \<Rightarrow> (string \<times> pyval) list \<Rightarrow> string list \<Rightarrow>
   error + ((string \<times> pyval) list \<times> string list)" where
  "read_required cfg [] settings missing = Inr (settings, missing)"
| "read_required cfg (setting # rest) settings missing =
     bindS (config_get cfg ''foreman'' setting) (\<lambda>val.
       read_required cfg rest (AList.update setting val settings)
         (if val = PNone then missing @ [setting] else missing))"

text \<open>\<open>read_settings\<close> (lines 101-119), from the parsed file.\<close>

definition read_settings :: "config \<Rightarrow> error + (string \<times> pyval) list" where
  "read_settings cfg =
     bindS (read_required cfg [''base_url'', ''username'', ''password''] [] []) (\<lambda>(settings, missing).
       if missing \<noteq> [] then
         Inl (Exception (''Could not find values for Foreman '' @ join '', '' missing
                         @ ''. They must be specified via ini file.''))
       else Inr settings)"

text \<open>
  The option values of \<open>parse_cli_args\<close> (lines 125-130): \<open>--list\<close> is a \<open>store_true\<close>
  option with default \<open>True\<close>, \<open>--host\<close> stores a string (default \<open>None\<close>), \<open>--all\<close> is a
  \<open>store_true\<close> option whose default \<open>None\<close> is kept as \<open>False\<close> (only its truth value is
  read).
\<close>

record cli_args =
  opt_list :: bool
  opt_host :: "string option"
  opt_all :: bool

definition default_args :: cli_args where
  "default_args = \<lparr>opt_list = True, opt_host = None, opt_all = False\<rparr>"

text \<open>
  \<open>optparse\<close> (Python 2 standard library) on the argument list: a long option may be
  abbreviated to an unambiguous prefix and may carry its value after \<open>=\<close>; \<open>--help\<close> and
  \<open>-h\<close> leave with status 0, a parse error with status 2; \<open>--\<close> ends the options; every
  other argument is positional and ignored by the script.
\<close>

definition long_opts :: "string list" where
  "long_opts = [''--help'', ''--list'', ''--host'', ''--all'']"

definition match_long_opt :: "string \<Rightarrow> error + string" where
  "match_long_opt opt =
     (if opt \<in> set long_opts then Inr opt
      else case filter (\<lambda>w. take (length opt) w = opt) long_opts of
        [w] \<Rightarrow> Inr w
      | _ \<Rightarrow> Inl (SystemExit 2))"

definition split_eq :: "string \<Rightarrow> string \<times> string option" where
  "split_eq arg =
     (if CHR ''='' \<in> set arg
      then (takeWhile (\<lambda>c. c \<noteq> CHR ''='') arg, Some (tl (dropWhile (\<lambda>c. c \<noteq> CHR ''='') arg)))
      else (arg, None))"

fun parse_args :: "string list \<Rightarrow> cli_args \<Rightarrow> error + cli_args" where
  "parse_args [] values = Inr values"
| "parse_args (arg # rargs) values =
     (if arg = ''--'' then Inr values
      else if take 2 arg = ''--'' then
        (case match_long_opt (fst (split_eq arg)) of
           Inl e \<Rightarrow> Inl e
         | Inr opt \<Rightarrow>
             if opt = ''--host'' then
               (case snd (split_eq arg) of
                  Some v \<Rightarrow> parse_args rargs (values\<lparr>opt_host := Some v\<rparr>)
                | None \<Rightarrow>
                    (case rargs of
                       [] \<Rightarrow> Inl (SystemExit 2)
                     | v # rest \<Rightarrow> parse_args rest (values\<lparr>opt_host := Some v\<rparr>)))
             else if snd (split_eq arg) \<noteq> None then Inl (SystemExit 2)
             else if opt = ''--help'' then Inl (SystemExit 0)
             else if opt = ''--list'' then parse_args rargs (values\<lparr>opt_list := True\<rparr>)
             else parse_args rargs (values\<lparr>opt_all := True\<rparr>))
      else if take 1 arg = ''-'' \<and> 1 < length arg then
        (if take 1 (drop 1 arg) = ''h'' then Inl (SystemExit 0) else Inl (SystemExit 2))
      else parse_args rargs values)"

definition parse_cli_args :: "string list \<Rightarrow> error + cli_args" where
  "parse_cli_args argv = parse_args argv default_args"

text \<open>
  The dispatch of \<open>CLIMain.__init__\<close> (lines 91-98). \<open>data_to_print\<close> keeps the branch
  that produced it; \<open>json.dumps\<close> is not modelled.
\<close>

datatype data_to_print =
    OutAll inventory
  | OutHost host_desc
  | OutList inventory
  | OutEmpty

datatype operation = OpAll | OpHost string | OpList | OpEmpty

definition dispatch :: "cli_args \<Rightarrow> operation" where
  "dispatch args =
     (if opt_all args then OpAll
      else if opt_host args \<noteq> None \<and> opt_host args \<noteq> Some [] then OpHost (the (opt_host args))
      else if opt_list args then OpList
      else OpEmpty)"

definition run_operation :: "env \<Rightarrow> operation \<Rightarrow> state \<Rightarrow> ((error + data_to_print) \<times> state) option" where
  "run_operation env op s =
     (case op of
        OpAll \<Rightarrow> map_option (\<lambda>(r, s'). (map_sum id OutAll r, s')) (get_all env s)
      | OpHost h \<Rightarrow> Some (case get_host_info env (PStr h) s of (r, s') \<Rightarrow> (map_sum id OutHost r, s'))
      | OpList \<Rightarrow> map_option (\<lambda>(r, s'). (map_sum id OutList r, s')) (get_inventory env s)
      | OpEmpty \<Rightarrow> Some (Inr OutEmpty, s))"

text \<open>\<open>CLIMain.__init__\<close> (lines 84-99): \<open>None\<close> is a run that does not end.\<close>

definition cli_main :: "env \<Rightarrow> config \<Rightarrow> string list \<Rightarrow> (error + data_to_print) option" where
  "cli_main env cfg argv =
     (case read_settings cfg of
        Inl e \<Rightarrow> Some (Inl e)
      | Inr settings \<Rightarrow>
          (case parse_cli_args argv of
             Inl e \<Rightarrow> Some (Inl e)
           | Inr args \<Rightarrow>
               (case bindS (desc_lookup settings ''username'') (\<lambda>u.
                     bindS (desc_lookup settings ''password'') (\<lambda>p.
                     bindS (desc_lookup settings ''base_url'') (\<lambda>b.
                       foreman_init env (py_format env u) (py_format env p) (py_format env b)))) of
                  Inl e \<Rightarrow> Some (Inl e)
                | Inr foreman \<Rightarrow> map_option fst (run_operation env (dispatch args) foreman))))"

section \<open>A small Foreman instance\<close>

text \<open>
  Two hosts on the first page and nothing after it: \<open>web1\<close> belongs to the hostgroup
  with id 5 and runs the operating system with id 2, \<open>db1\<close> has no foreign keys. For
  the host \<open>ghost\<close> the client answers with a dictionary that has no \<open>host\<close> entry; it
  answers every other request with an error.
\<close>

definition web1 :: "(string \<times> pyval) list" where
  "web1 = [(''id'', PInt 1), (''name'', PStr ''web1''), (''ip'', PStr ''10.0.0.1''),
           (''hostgroup_id'', PInt 5), (''operatingsystem_id'', PInt 2),
           (''environment'', PDict [(''environment'', PDict [(''name'', PStr ''PRODUCTION'')])])]"

definition db1 :: "(string \<times> pyval) list" where
  "db1 = [(''id'', PInt 2), (''name'', PStr ''db1''), (''ip'', PStr ''10.0.0.2'')]"

definition demo_show :: "string \<Rightarrow> pyval \<Rightarrow> error + pyval" where
  "demo_show t i =
     (if t = ''hostgroup'' \<and> i = PInt 5 then
        Inr (PDict [(''hostgroup'',
               PDict [(''label'', PStr ''webservers''), (''name'', PStr ''ignored'')])])
      else if t = ''operatingsystem'' \<and> i = PInt 2 then
        Inr (PDict [(''operatingsystem'',
               PDict [(''name'', PStr ''CentOS''), (''major'', PStr ''7'')])])
      else if t = ''host'' \<and> i = PStr ''web1'' then Inr (PDict [(''host'', PDict web1)])
      else if t = ''host'' \<and> i = PStr ''db1'' then Inr (PDict [(''host'', PDict db1)])
      else if t = ''host'' \<and> i = PStr ''ghost'' then Inr (PDict [])
      else Inl (ClientError ''404''))"

definition demo_pages :: "int \<Rightarrow> error + pyval list" where
  "demo_pages p =
     (if p = 1 then Inr [PDict [(''host'', PDict web1)], PDict [(''host'', PDict db1)]]
      else Inr [])"

definition demo_env :: env where
  "demo_env = \<lparr>connect = (\<lambda>_. None), show_objs = demo_show, index_hosts = demo_pages,
                py_repr = (\<lambda>_. [])\<rparr>"

definition demo_groups :: inventory where
  "demo_groups = [(KStr ''webservers'', HostNames [PStr ''web1'']),
                  (KNone, HostNames [PStr ''db1''])]"

definition demo_web1_desc :: host_desc where
  "demo_web1_desc =
     [(''id'', PInt 1), (''ip'', PStr ''10.0.0.1''), (''name'', PStr ''web1''),
      (''status'', PNone), (''model'', PNone), (''compute_resource'', PNone),
      (''domain'', PNone), (''subnet'', PNone), (''architecture'', PNone),
      (''hostgroup'', PStr ''webservers''), (''created'', PNone), (''updated'', PNone),
      (''os'', PStr ''CentOS-7''), (''environment'', PStr ''production''),
      (''ansible_ssh_host'', PStr ''10.0.0.1'')]"

definition demo_db1_desc :: host_desc where
  "demo_db1_desc =
     [(''id'', PInt 2), (''ip'', PStr ''10.0.0.2''), (''name'', PStr ''db1''),
      (''status'', PNone), (''model'', PNone), (''compute_resource'', PNone),
      (''domain'', PNone), (''subnet'', PNone), (''architecture'', PNone),
      (''hostgroup'', PNone), (''created'', PNone), (''updated'', PNone),
      (''os'', PNone), (''ansible_ssh_host'', PStr ''10.0.0.2'')]"

definition demo_hostvars :: "(pyval \<times> host_desc) list" where
  "demo_hostvars = [(PStr ''web1'', demo_web1_desc), (PStr ''db1'', demo_db1_desc)]"

definition demo_all :: inventory where
  "demo_all = demo_groups @ [(KStr ''_meta'', MetaDict [(''hostvars'', demo_hostvars)])]"

definition demo_fetched :: "(string \<times> (error + pykey)) list" where
  "demo_fetched = [(''hostgroup'', Inr (KInt 5)), (''host'', Inr (KStr ''web1'')),
                   (''operatingsystem'', Inr (KInt 2)), (''host'', Inr (KStr ''db1''))]"

section \<open>Observations on a run\<close>

text \<open>The keys a host description can have.\<close>

definition host_keys :: "string list" where
  "host_keys = [''id'', ''ip'', ''name'', ''status'', ''model'', ''compute_resource'', ''domain'',
                ''subnet'', ''architecture'', ''hostgroup'', ''created'', ''updated'', ''os'',
                ''environment'', ''ansible_ssh_host'']"

text \<open>The object types a host refers to through a field \<open><type>_id\<close>.\<close>

definition fk_types :: "string list" where
  "fk_types = [''model'', ''compute_resource'', ''domain'', ''subnet'', ''architecture'',
               ''hostgroup'', ''operatingsystem'']"

text \<open>
  The environment of a host record as the specification words it: the nested lookup
  \<open>environment.environment.name\<close>, lower-cased, and nothing when a level is absent.
\<close>

definition spec_environment :: "(string \<times> pyval) list \<Rightarrow> pyval option" where
  "spec_environment meta =
     (case map_of meta ''environment'' of
        Some (PDict e1) \<Rightarrow>
          (case map_of e1 ''environment'' of
             Some (PDict e2) \<Rightarrow>
               (case map_of e2 ''name'' of
                  Some (PStr n) \<Rightarrow> Some (PStr (map lower_char n))
                | _ \<Rightarrow> None)
           | _ \<Rightarrow> None)
      | _ \<Rightarrow> None)"

text \<open>
  Relations between the state before and the state after an operation, whatever its
  outcome: the client calls only grow, by calls that satisfy \<open>P\<close>; the log of
  \<open>get_host_info\<close> invocations is untouched.
\<close>

definition calls_ext :: "(call \<Rightarrow> bool) \<Rightarrow> state \<Rightarrow> state \<Rightarrow> bool" where
  "calls_ext P s s' = (\<exists>new. calls s' = calls s @ new \<and> list_all P new)"

definition same_log :: "state \<Rightarrow> state \<Rightarrow> bool" where
  "same_log s s' = (info_log s' = info_log s)"

definition stable :: "(state \<Rightarrow> state \<Rightarrow> bool) \<Rightarrow> 'a M \<Rightarrow> bool" where
  "stable R m = (\<forall>s r s'. m s = (r, s') \<longrightarrow> R s s')"

text \<open>
  An invariant \<open>I\<close> that every successful step re-establishes, with a weaker \<open>W\<close> that
  holds after a failing step as well.
\<close>

definition hoare :: "(state \<Rightarrow> bool) \<Rightarrow> (state \<Rightarrow> bool) \<Rightarrow> 'a M \<Rightarrow> bool" where
  "hoare I W m = (\<forall>s r s'. I s \<longrightarrow> m s = (r, s') \<longrightarrow> W s' \<and> (\<not> isl r \<longrightarrow> I s'))"

text \<open>
  The fetches of a run: for every call \<open>show_<t>s(i)\<close>, the type and the key \<open>i\<close> is in
  the cache dictionary.
\<close>

fun show_key :: "call \<Rightarrow> (string \<times> (error + pykey)) list" where
  "show_key (IndexHosts p) = []"
| "show_key (ShowObj t i) = [(t, py_key i)]"

definition fetched :: "call list \<Rightarrow> (string \<times> (error + pykey)) list" where
  "fetched cs = concat (map show_key cs)"

definition cached :: "state \<Rightarrow> string \<Rightarrow> pykey \<Rightarrow> bool" where
  "cached s t k =
     (case map_of (cache s) t of
        None \<Rightarrow> False
      | Some tc \<Rightarrow> (case map_of tc k of None \<Rightarrow> False | Some obj \<Rightarrow> obj \<noteq> PNone))"

definition once_inv :: "state \<Rightarrow> bool" where
  "once_inv s =
     (distinct (fetched (calls s)) \<and>
      (\<forall>tk\<in>set (fetched (calls s)). \<exists>k. snd tk = Inr k \<and> cached s (fst tk) k))"

section \<open>Basic facts about the model\<close>

lemma bindM_Inr_iff:
  "bindM m f s = (Inr v, s') \<longleftrightarrow> (\<exists>x s1. m s = (Inr x, s1) \<and> f x s1 = (Inr v, s'))"
  by (auto simp: bindM_def split: prod.splits sum.splits)

lemma bindM_InrE:
  assumes "bindM m f s = (Inr v, s')"
  obtains x s1 where "m s = (Inr x, s1)" and "f x s1 = (Inr v, s')"
  using assms by (auto simp: bindM_def split: prod.splits sum.splits)

lemma bindS_InrE:
  assumes "bindS r f = Inr v"
  obtains x where "r = Inr x" and "f x = Inr v"
  using assms by (auto simp: bindS_def split: sum.splits)

lemma liftM_simp [simp]: "liftM r s = (r', s') \<longleftrightarrow> r = r' \<and> s' = s"
  by (auto simp: liftM_def)

lemma returnM_simp [simp]: "returnM v s = (r, s') \<longleftrightarrow> r = Inr v \<and> s' = s"
  by (auto simp: returnM_def)

lemma map_of_None_keys: "k \<notin> fst ` set al \<Longrightarrow> map_of al k = None"
  by (simp add: map_of_eq_None_iff)

lemma update_values:
  "\<forall>v\<in>snd ` set al. P v \<Longrightarrow> P v0 \<Longrightarrow> \<forall>v\<in>snd ` set (AList.update k v0 al). P v"
  by (induction al) auto

lemma group_hosts_step:
  assumes "group_hosts env (host # rest) gs s = (Inr gs', s')"
  obtains gid host_group server_name k names s1 where
    "bindS (py_get host ''host'') (\<lambda>h. py_get h ''hostgroup_id'') = Inr gid"
    "get_from_id env ''hostgroup'' gid s = (Inr host_group, s1)"
    "bindS (py_get host ''host'') (\<lambda>h. py_get h ''name'') = Inr server_name"
    "py_key host_group = Inr k"
    "group_members gs k = Inr names"
    "group_hosts env rest (AList.update k (HostNames (names @ [server_name])) gs) s1 = (Inr gs', s')"
  using assms
  apply (simp only: group_hosts.simps bindM_Inr_iff liftM_simp)
  apply (elim exE conjE)
  apply (rule that; simp)
  done

lemma group_hosts_values:
  "group_hosts env hosts gs s = (Inr gs', s') \<Longrightarrow>
   \<forall>v\<in>snd ` set gs. \<exists>names. v = HostNames names \<Longrightarrow>
   \<forall>v\<in>snd ` set gs'. \<exists>names. v = HostNames names"
proof (induction hosts arbitrary: gs s)
  case Nil
  then show ?case by simp
next
  case (Cons host rest)
  from Cons.prems(1) obtain k names server_name s1 where
    rec: "group_hosts env rest (AList.update k (HostNames (names @ [server_name])) gs) s1 = (Inr gs', s')"
    by (rule group_hosts_step)
  have "\<forall>v\<in>snd ` set (AList.update k (HostNames (names @ [server_name])) gs). \<exists>ns. v = HostNames ns"
    using Cons.prems(2) by (rule update_values) simp
  with Cons.IH [OF rec] show ?case .
qed

lemma get_inventory_values:
  assumes "get_inventory env s = Some (Inr gs, s')"
  shows "\<forall>v\<in>snd ` set gs. \<exists>names. v = HostNames names"
proof (cases "fetch_hosts env 1 [] s")
  case None
  with assms show ?thesis by (simp add: get_inventory_def)
next
  case (Some p)
  obtain r s1 where p: "p = (r, s1)" by (cases p)
  show ?thesis
  proof (cases r)
    case (Inl e)
    with assms Some p show ?thesis by (simp add: get_inventory_def)
  next
    case (Inr hosts)
    show ?thesis
    proof (cases "length hosts < 1")
      case True
      with assms Some p Inr show ?thesis by (simp add: get_inventory_def)
    next
      case False
      with assms Some p Inr have "group_hosts env hosts [] s1 = (Inr gs, s')"
        by (simp add: get_inventory_def)
      from group_hosts_values [OF this] show ?thesis by simp
    qed
  qed
qed

lemma get_all_InrE:
  assumes "get_all env s = Some (Inr res, s')"
  obtains gs s1 hosts hostvars where
    "get_inventory env s = Some (Inr gs, s1)"
    "collect_hosts gs [] = Inr hosts"
    "host_infos env hosts s1 = (Inr hostvars, s')"
    "res = AList.update (KStr ''_meta'') (MetaDict [(''hostvars'', hostvars)]) gs"
proof (cases "get_inventory env s")
  case None
  with assms show ?thesis by (simp add: get_all_def)
next
  case (Some p)
  obtain r s1 where p: "p = (r, s1)" by (cases p)
  show ?thesis
  proof (cases r)
    case (Inl e)
    with assms Some p show ?thesis by (simp add: get_all_def)
  next
    case (Inr gs)
    with assms Some p show ?thesis
      by (auto simp: get_all_def elim!: bindM_InrE intro: that)
  qed
qed

lemma copy_fields_keys:
  "copy_fields meta suffix ks d = Inr d' \<Longrightarrow> fst ` set d' = fst ` set d \<union> set ks"
proof (induction ks arbitrary: d)
  case Nil
  then show ?case by simp
next
  case (Cons k ks)
  from Cons.prems obtain v where "copy_fields meta suffix ks (AList.update k v d) = Inr d'"
    by (auto elim!: bindS_InrE)
  from Cons.IH [OF this] show ?case by (auto simp: AList.dom_update)
qed

lemma resolve_fields_keys:
  "resolve_fields env meta ks d s = (Inr d', s') \<Longrightarrow> fst ` set d' = fst ` set d \<union> set ks"
proof (induction ks arbitrary: d s)
  case Nil
  then show ?case by simp
next
  case (Cons k ks)
  from Cons.prems obtain v s1 where "resolve_fields env meta ks (AList.update k v d) s1 = (Inr d', s')"
    by (auto elim!: bindM_InrE)
  from Cons.IH [OF this] show ?case by (auto simp: AList.dom_update)
qed

lemma set_environment_keys:
  "fst ` set (set_environment meta d) \<subseteq> insert ''environment'' (fst ` set d)"
  by (auto simp: set_environment_def AList.dom_update split: sum.splits)

lemma describe_host_InrE:
  assumes "describe_host env meta s1 = (Inr d, s')"
  obtains d1 d2 d3 os ip s2 where
    "copy_fields meta [] [''id'', ''ip'', ''name'', ''status''] [] = Inr d1"
    "resolve_fields env meta [''model'', ''compute_resource'', ''domain'', ''subnet'',
        ''architecture'', ''hostgroup''] d1 s1 = (Inr d2, s2)"
    "copy_fields meta ''_at'' [''created'', ''updated''] d2 = Inr d3"
    "get_from_type env ''operatingsystem'' meta s2 = (Inr os, s')"
    "desc_lookup (set_environment meta (AList.update ''os'' os d3)) ''ip'' = Inr ip"
    "d = AList.update ''ansible_ssh_host'' ip (set_environment meta (AList.update ''os'' os d3))"
  using assms
  apply (simp only: describe_host_def bindM_Inr_iff liftM_simp returnM_simp)
  apply (elim exE conjE)
  apply (rule that; simp del: copy_fields.simps resolve_fields.simps)
  done

lemma get_host_info_unfold:
  "get_host_info env host_id s =
     (case get_object_from_id env ''host'' host_id (s\<lparr>info_log := info_log s @ [host_id]\<rparr>) of
        (Inl e, s1) \<Rightarrow> (Inl e, s1)
      | (Inr meta, s1) \<Rightarrow> if meta = PNone then (Inr [], s1) else describe_host env meta s1)"
  by (simp add: get_host_info_def bindM_def returnM_def split: prod.splits sum.splits)

lemma get_host_info_InrE:
  assumes "get_host_info env host_id s = (Inr d, s')"
  obtains (missing) "d = []"
      "get_object_from_id env ''host'' host_id (s\<lparr>info_log := info_log s @ [host_id]\<rparr>)
         = (Inr PNone, s')"
  | (found) meta s1 where
      "get_object_from_id env ''host'' host_id (s\<lparr>info_log := info_log s @ [host_id]\<rparr>)
         = (Inr meta, s1)"
      "meta \<noteq> PNone"
      "describe_host env meta s1 = (Inr d, s')"
  using assms unfolding get_host_info_unfold
  by (auto split: prod.splits sum.splits if_splits)

section \<open>Resolving the fields of a host\<close>

lemma bindM_Inr: "m s = (Inr v, s') \<Longrightarrow> bindM m f s = f v s'"
  by (simp add: bindM_def)

lemma bindM_Inl: "m s = (Inl e, s') \<Longrightarrow> bindM m f s = (Inl e, s')"
  by (simp add: bindM_def)

lemma bindM_liftM: "bindM (liftM (Inr v)) f s = f v s"
  by (simp add: bindM_def liftM_def)

lemma get_object_from_id_None: "get_object_from_id env t PNone s = (Inr PNone, s)"
  by (simp add: get_object_from_id_def)

lemma get_from_id_None: "get_from_id env t PNone s = (Inr PNone, s)"
  by (simp add: get_from_id_def bindM_def get_object_from_id_None returnM_def)

lemma get_from_type_absent:
  "py_get host (t @ ''_id'') = Inr PNone \<Longrightarrow> get_from_type env t host s = (Inr PNone, s)"
  by (simp add: get_from_type_def bindM_liftM get_from_id_None)

lemma get_object_from_id_log:
  "get_object_from_id env t i (s\<lparr>info_log := l\<rparr>) =
     (fst (get_object_from_id env t i s), (snd (get_object_from_id env t i s))\<lparr>info_log := l\<rparr>)"
  by (simp add: get_object_from_id_def split: option.splits sum.splits)

lemma copy_fields_other:
  "copy_fields meta suffix ks d = Inr d' \<Longrightarrow> k \<notin> set ks \<Longrightarrow> map_of d' k = map_of d k"
proof (induction ks arbitrary: d)
  case Nil
  then show ?case by simp
next
  case (Cons k0 ks)
  from Cons.prems(1) obtain v where "copy_fields meta suffix ks (AList.update k0 v d) = Inr d'"
    by (auto elim!: bindS_InrE)
  from Cons.IH [OF this] Cons.prems(2) show ?case by (simp add: AList.update_conv')
qed

lemma resolve_fields_other:
  "resolve_fields env meta ks d s = (Inr d', s') \<Longrightarrow> k \<notin> set ks \<Longrightarrow> map_of d' k = map_of d k"
proof (induction ks arbitrary: d s)
  case Nil
  then show ?case by simp
next
  case (Cons k0 ks)
  from Cons.prems(1) obtain v s1 where
    "resolve_fields env meta ks (AList.update k0 v d) s1 = (Inr d', s')"
    by (auto elim!: bindM_InrE)
  from Cons.IH [OF this] Cons.prems(2) show ?case by (simp add: AList.update_conv')
qed

lemma resolve_fields_absent:
  "resolve_fields env meta ks d s = (Inr d', s') \<Longrightarrow> k \<in> set ks \<Longrightarrow>
   py_get meta (k @ ''_id'') = Inr PNone \<Longrightarrow> map_of d' k = Some PNone"
proof (induction ks arbitrary: d s)
  case Nil
  then show ?case by simp
next
  case (Cons k0 ks)
  from Cons.prems(1) obtain v s1 where
    v: "get_from_type env k0 meta s = (Inr v, s1)" and
    rec: "resolve_fields env meta ks (AList.update k0 v d) s1 = (Inr d', s')"
    by (auto elim!: bindM_InrE)
  show ?case
  proof (cases "k \<in> set ks")
    case True
    from Cons.IH [OF rec True Cons.prems(3)] show ?thesis .
  next
    case False
    with Cons.prems(2) have k: "k = k0" by simp
    with v get_from_type_absent [OF Cons.prems(3), of env s] have "v = PNone" by simp
    with resolve_fields_other [OF rec False] k show ?thesis by (simp add: AList.update_conv')
  qed
qed

lemma set_environment_other:
  "k \<noteq> ''environment'' \<Longrightarrow> map_of (set_environment meta d) k = map_of d k"
  by (simp add: set_environment_def AList.update_conv' split: sum.splits)

lemma environment_name_spec:
  "environment_name (PDict meta) =
     (case spec_environment meta of None \<Rightarrow> Inl AttributeError | Some v \<Rightarrow> Inr v)"
proof -
  have g: "py_get v k = (case v of PDict d \<Rightarrow> Inr (dict_get d k) | _ \<Rightarrow> Inl AttributeError)" for v k
    by (cases v) simp_all
  have l: "py_lower v = (case v of PStr n \<Rightarrow> Inr (PStr (map lower_char n)) | _ \<Rightarrow> Inl AttributeError)" for v
    by (cases v) simp_all
  show ?thesis
    unfolding environment_name_def spec_environment_def bindS_def
    by (simp add: g l dict_get_def split: option.splits pyval.splits)
qed

lemma set_environment_spec:
  "map_of d ''environment'' = None \<Longrightarrow>
   map_of (set_environment (PDict meta) d) ''environment'' = spec_environment meta"
  by (simp add: set_environment_def environment_name_spec AList.update_conv' split: option.splits)

section \<open>What an operation does to the state\<close>

lemma stable_bindM:
  assumes "\<And>a b c. R a b \<Longrightarrow> R b c \<Longrightarrow> R a c"
    and "stable R m" and "\<And>x. stable R (f x)"
  shows "stable R (bindM m f)"
  unfolding stable_def
proof (intro allI impI)
  fix s r s'
  assume b: "bindM m f s = (r, s')"
  obtain r1 s1 where m: "m s = (r1, s1)" by (cases "m s")
  with assms(2) have R1: "R s s1" by (simp add: stable_def)
  show "R s s'"
  proof (cases r1)
    case (Inl e)
    with b m have "s' = s1" by (simp add: bindM_def)
    with R1 show ?thesis by simp
  next
    case (Inr x)
    with b m have "f x s1 = (r, s')" by (simp add: bindM_def)
    with assms(3) have "R s1 s'" by (simp add: stable_def)
    with R1 show ?thesis by (rule assms(1))
  qed
qed

lemma stable_liftM: "(\<And>s. R s s) \<Longrightarrow> stable R (liftM r)"
  by (simp add: stable_def)

lemma stable_returnM: "(\<And>s. R s s) \<Longrightarrow> stable R (returnM v)"
  by (simp add: stable_def)

lemma stable_if: "stable R a \<Longrightarrow> stable R b \<Longrightarrow> stable R (if c then a else b)"
  by simp

lemma calls_ext_refl: "calls_ext P s s"
  by (simp add: calls_ext_def)

lemma calls_ext_trans: "calls_ext P a b \<Longrightarrow> calls_ext P b c \<Longrightarrow> calls_ext P a c"
  by (auto simp: calls_ext_def)

lemma same_log_refl: "same_log s s"
  by (simp add: same_log_def)

lemma same_log_trans: "same_log a b \<Longrightarrow> same_log b c \<Longrightarrow> same_log a c"
  by (simp add: same_log_def)

lemma get_object_from_id_calls:
  "P (ShowObj t i) \<Longrightarrow> stable (calls_ext P) (get_object_from_id env t i)"
  by (auto simp: stable_def calls_ext_def get_object_from_id_def
      split: option.splits sum.splits if_splits)

lemma get_object_from_id_same_log: "stable same_log (get_object_from_id env t i)"
  by (auto simp: stable_def same_log_def get_object_from_id_def
      split: option.splits sum.splits if_splits)

lemma get_from_id_calls:
  "P (ShowObj t i) \<Longrightarrow> stable (calls_ext P) (get_from_id env t i)"
  unfolding get_from_id_def
  by (intro stable_bindM stable_if stable_liftM stable_returnM get_object_from_id_calls
      calls_ext_refl) (erule (1) calls_ext_trans)

lemma get_from_id_same_log: "stable same_log (get_from_id env t i)"
  unfolding get_from_id_def
  by (intro stable_bindM stable_if stable_liftM stable_returnM get_object_from_id_same_log
      same_log_refl) (erule (1) same_log_trans)

lemma get_from_type_calls:
  "(\<And>i. P (ShowObj t i)) \<Longrightarrow> stable (calls_ext P) (get_from_type env t host)"
  unfolding get_from_type_def
  by (intro stable_bindM stable_liftM get_from_id_calls calls_ext_refl)
     (erule (1) calls_ext_trans)

lemma get_from_type_same_log: "stable same_log (get_from_type env t host)"
  unfolding get_from_type_def
  by (intro stable_bindM stable_liftM get_from_id_same_log same_log_refl)
     (erule (1) same_log_trans)

lemma get_from_type_absent_stable:
  "py_get host (t @ ''_id'') = Inr PNone \<Longrightarrow> stable (calls_ext P) (get_from_type env t host)"
  by (simp add: stable_def get_from_type_absent calls_ext_refl)

lemma resolve_fields_stable:
  assumes "\<And>s. R s s" and "\<And>a b c. R a b \<Longrightarrow> R b c \<Longrightarrow> R a c"
    and "\<And>k. k \<in> set ks \<Longrightarrow> stable R (get_from_type env k meta)"
  shows "stable R (resolve_fields env meta ks d)"
  using assms(3)
proof (induction ks arbitrary: d)
  case Nil
  show ?case by (simp add: stable_returnM assms(1))
next
  case (Cons k ks)
  show ?case
    unfolding resolve_fields.simps
    by (rule stable_bindM) (erule (1) assms(2), simp add: Cons.prems, simp add: Cons)
qed

lemma describe_host_stable:
  assumes "\<And>s. R s s" and "\<And>a b c. R a b \<Longrightarrow> R b c \<Longrightarrow> R a c"
    and "\<And>k. k \<in> set fk_types \<Longrightarrow> stable R (get_from_type env k meta)"
  shows "stable R (describe_host env meta)"
  unfolding describe_host_def
  by (intro stable_bindM stable_liftM stable_returnM resolve_fields_stable assms(1))
     (auto simp: fk_types_def intro: assms(3) elim: assms(2))

lemma stableD: "stable R m \<Longrightarrow> R s (snd (m s))"
  by (cases "m s") (auto simp: stable_def)

section \<open>The description of a host\<close>

lemma copy_fields_dict:
  "copy_fields (PDict meta) suffix ks d =
     Inr (fold (\<lambda>k. AList.update k (dict_get meta (k @ suffix))) ks d)"
  by (induction ks arbitrary: d) (simp_all add: bindS_def)

lemma resolve_fields_all_absent:
  "\<forall>k\<in>set ks. py_get meta (k @ ''_id'') = Inr PNone \<Longrightarrow>
   resolve_fields env meta ks d s = (Inr (fold (\<lambda>k. AList.update k PNone) ks d), s)"
  by (induction ks arbitrary: d) (simp_all add: bindM_def get_from_type_absent)

lemma describe_host_all_absent:
  assumes "\<forall>k\<in>set fk_types. dict_get meta (k @ ''_id'') = PNone"
  shows "\<exists>d. describe_host env (PDict meta) s = (Inr d, s)"
proof -
  have r: "resolve_fields env (PDict meta)
      [''model'', ''compute_resource'', ''domain'', ''subnet'', ''architecture'', ''hostgroup''] d s
      = (Inr (fold (\<lambda>k. AList.update k PNone)
           [''model'', ''compute_resource'', ''domain'', ''subnet'', ''architecture'', ''hostgroup''] d), s)"
    for d
    using assms by (intro resolve_fields_all_absent) (simp add: fk_types_def)
  have os: "get_from_type env ''operatingsystem'' (PDict meta) s = (Inr PNone, s)"
    using assms by (intro get_from_type_absent) (simp add: fk_types_def)
  have rb: "bindM (resolve_fields env (PDict meta)
      [''model'', ''compute_resource'', ''domain'', ''subnet'', ''architecture'', ''hostgroup''] d) f s
      = f (fold (\<lambda>k. AList.update k PNone)
           [''model'', ''compute_resource'', ''domain'', ''subnet'', ''architecture'', ''hostgroup''] d) s"
    for d and f :: "host_desc \<Rightarrow> host_desc M"
    by (simp only: bindM_def r split: prod.splits sum.splits) simp
  have osb: "bindM (get_from_type env ''operatingsystem'' (PDict meta)) f s = f PNone s"
    for f :: "pyval \<Rightarrow> host_desc M"
    by (simp add: bindM_def os)
  show ?thesis
    unfolding describe_host_def copy_fields_dict bindM_liftM rb osb
    by (simp add: desc_lookup_def set_environment_other AList.update_conv' bindM_liftM)
qed

lemma describe_host_d3_keys:
  assumes "copy_fields meta [] [''id'', ''ip'', ''name'', ''status''] [] = Inr d1"
    "resolve_fields env meta [''model'', ''compute_resource'', ''domain'', ''subnet'',
        ''architecture'', ''hostgroup''] d1 s1 = (Inr d2, s2)"
    "copy_fields meta ''_at'' [''created'', ''updated''] d2 = Inr d3"
  shows "fst ` set d3 = {''id'', ''ip'', ''name'', ''status'', ''model'', ''compute_resource'',
      ''domain'', ''subnet'', ''architecture'', ''hostgroup'', ''created'', ''updated''}"
proof -
  from copy_fields_keys [OF assms(1)]
  have k1: "fst ` set d1 = {''id'', ''ip'', ''name'', ''status''}" by auto
  from resolve_fields_keys [OF assms(2)] k1
  have k2: "fst ` set d2 = {''id'', ''ip'', ''name'', ''status'', ''model'', ''compute_resource'',
      ''domain'', ''subnet'', ''architecture'', ''hostgroup''}" by auto
  from copy_fields_keys [OF assms(3)] k2 show ?thesis by auto
qed

lemma describe_host_fk:
  assumes "describe_host env meta s = (Inr d, s')"
    and "k \<in> set [''model'', ''compute_resource'', ''domain'', ''subnet'', ''architecture'', ''hostgroup'']"
    and "py_get meta (k @ ''_id'') = Inr PNone"
  shows "map_of d k = Some PNone"
  using assms(1)
proof (cases rule: describe_host_InrE)
  case (1 d1 d2 d3 os ip s2)
  from assms(2) have ne: "k \<noteq> ''ansible_ssh_host''" "k \<noteq> ''environment''" "k \<noteq> ''os''"
    "k \<notin> set [''created'', ''updated'']" by auto
  have "map_of d k = map_of d3 k"
    unfolding 1(6) using ne by (simp add: AList.update_conv' set_environment_other)
  also have "\<dots> = map_of d2 k"
    using copy_fields_other [OF 1(3) ne(4)] .
  also have "\<dots> = Some PNone"
    using resolve_fields_absent [OF 1(2) assms(2) assms(3)] .
  finally show ?thesis .
qed


lemma describe_host_environment:
  assumes "describe_host env (PDict meta) s = (Inr d, s')"
  shows "map_of d ''environment'' = spec_environment meta"
  using assms
proof (cases rule: describe_host_InrE)
  case (1 d1 d2 d3 os ip s2)
  from describe_host_d3_keys [OF 1(1) 1(2) 1(3)] have "''environment'' \<notin> fst ` set d3"
    by auto
  then have "map_of (AList.update ''os'' os d3) ''environment'' = None"
    by (simp add: AList.update_conv' map_of_None_keys)
  from set_environment_spec [OF this] show ?thesis
    unfolding 1(6) by (simp add: AList.update_conv')
qed

lemma get_host_info_found:
  assumes "fst (get_object_from_id env ''host'' host_id s) = Inr meta" and "meta \<noteq> PNone"
  shows "get_host_info env host_id s =
     describe_host env meta
       ((snd (get_object_from_id env ''host'' host_id s))\<lparr>info_log := info_log s @ [host_id]\<rparr>)"
  using assms by (simp add: get_host_info_unfold get_object_from_id_log)


section \<open>At most one fetch per type and key\<close>

lemma hoare_bindM:
  assumes "hoare I W m" and "\<And>x. hoare I W (f x)"
  shows "hoare I W (bindM m f)"
  unfolding hoare_def
proof (intro allI impI)
  fix s r s'
  assume I: "I s" and b: "bindM m f s = (r, s')"
  obtain r1 s1 where m: "m s = (r1, s1)" by (cases "m s")
  with assms(1) I have 1: "W s1 \<and> (\<not> isl r1 \<longrightarrow> I s1)" by (simp add: hoare_def)
  show "W s' \<and> (\<not> isl r \<longrightarrow> I s')"
  proof (cases r1)
    case (Inl e)
    with b m have "s' = s1" "r = Inl e" by (simp_all add: bindM_def)
    with 1 show ?thesis by simp
  next
    case (Inr x)
    with b m have "f x s1 = (r, s')" by (simp add: bindM_def)
    moreover from 1 Inr have "I s1" by simp
    ultimately show ?thesis using assms(2) [of x] by (simp add: hoare_def)
  qed
qed

lemma hoare_liftM: "(\<And>s. I s \<Longrightarrow> W s) \<Longrightarrow> hoare I W (liftM r)"
  by (simp add: hoare_def)

lemma hoare_returnM: "(\<And>s. I s \<Longrightarrow> W s) \<Longrightarrow> hoare I W (returnM v)"
  by (simp add: hoare_def)

lemma hoare_if: "hoare I W a \<Longrightarrow> hoare I W b \<Longrightarrow> hoare I W (if c then a else b)"
  by simp

lemma hoareD:
  "hoare I W m \<Longrightarrow> I s \<Longrightarrow> W (snd (m s)) \<and> (\<not> isl (fst (m s)) \<longrightarrow> I (snd (m s)))"
  by (cases "m s") (auto simp: hoare_def)

lemma fetched_append [simp]: "fetched (xs @ ys) = fetched xs @ fetched ys"
  by (simp add: fetched_def)

lemma fetched_single [simp]:
  "fetched [ShowObj t i] = [(t, py_key i)]" "fetched [IndexHosts p] = []" "fetched [] = []"
  by (simp_all add: fetched_def)

lemma once_inv_weaken: "once_inv s \<Longrightarrow> distinct (fetched (calls s))"
  by (simp add: once_inv_def)

lemma once_inv_not_cached:
  "once_inv s \<Longrightarrow> \<not> cached s t k \<Longrightarrow> (t, Inr k) \<notin> set (fetched (calls s))"
  by (auto simp: once_inv_def)

lemma cached_update:
  assumes "cached s t0 k0" and "obj \<noteq> PNone" and "map_of (cache s) t = Some tc"
  shows "cached (s\<lparr>calls := c, cache := AList.update t (AList.update k obj tc) (cache s)\<rparr>) t0 k0"
  using assms
  by (auto simp: cached_def AList.update_conv' split: option.splits)

lemma cached_update_same:
  assumes "obj \<noteq> PNone"
  shows "cached (s\<lparr>calls := c, cache := AList.update t (AList.update k obj tc) (cache s)\<rparr>) t k"
  using assms
  by (simp add: cached_def AList.update_conv')

lemma once_inv_miss:
  assumes inv: "once_inv s" and tc: "map_of (cache s) t = Some tc"
    and miss: "map_of tc k = None \<or> map_of tc k = Some PNone" and key: "py_key i = Inr k"
  shows "distinct (fetched (calls s @ [ShowObj t i]))"
    and "obj \<noteq> PNone \<Longrightarrow>
      once_inv (s\<lparr>calls := calls s @ [ShowObj t i],
                  cache := AList.update t (AList.update k obj tc) (cache s)\<rparr>)"
proof -
  from tc miss have "\<not> cached s t k" by (auto simp: cached_def)
  with inv have new: "(t, Inr k) \<notin> set (fetched (calls s))" by (rule once_inv_not_cached)
  with inv key show d: "distinct (fetched (calls s @ [ShowObj t i]))"
    by (simp add: once_inv_def)
  assume obj: "obj \<noteq> PNone"
  let ?s' = "s\<lparr>calls := calls s @ [ShowObj t i],
                  cache := AList.update t (AList.update k obj tc) (cache s)\<rparr>"
  have "\<exists>k'. snd tk = Inr k' \<and> cached ?s' (fst tk) k'" if "tk \<in> set (fetched (calls ?s'))" for tk
  proof (cases "tk = (t, Inr k)")
    case True
    with cached_update_same [OF obj] show ?thesis by auto
  next
    case False
    with that key have "tk \<in> set (fetched (calls s))" by simp
    with inv obtain k' where "snd tk = Inr k'" "cached s (fst tk) k'"
      by (auto simp: once_inv_def)
    with cached_update [OF _ obj tc] show ?thesis by blast
  qed
  with d show "once_inv ?s'" by (simp add: once_inv_def)
qed

lemma py_get_Inr_not_None: "py_get obj k = Inr v \<Longrightarrow> obj \<noteq> PNone"
  by auto

lemma get_object_from_id_once:
  "hoare once_inv (\<lambda>s. distinct (fetched (calls s))) (get_object_from_id env t i)"
  unfolding hoare_def
proof (intro allI impI)
  fix s r s'
  assume inv: "once_inv s" and g: "get_object_from_id env t i s = (r, s')"
  note w = once_inv_weaken [OF inv]
  show "distinct (fetched (calls s')) \<and> (\<not> isl r \<longrightarrow> once_inv s')"
  proof (cases "i = PNone")
    case True
    with g inv w show ?thesis by (simp add: get_object_from_id_def)
  next
    case ni: False
    show ?thesis
    proof (cases "map_of (cache s) t")
      case None
      with g ni inv w show ?thesis by (simp add: get_object_from_id_def)
    next
      case (Some tc)
      show ?thesis
      proof (cases "py_key i")
        case (Inl e)
        with g ni Some inv w show ?thesis by (simp add: get_object_from_id_def)
      next
        case (Inr k)
        show ?thesis
        proof (cases "map_of tc k = None \<or> map_of tc k = Some PNone")
          case False
          with g ni Some Inr inv w show ?thesis
            by (auto simp: get_object_from_id_def split: option.splits)
        next
          case True
          note m = once_inv_miss [OF inv Some True Inr]
          show ?thesis
          proof (cases "show_objs env t i")
            case (Inl e)
            with g ni Some Inr True
            have "r = Inl e" and "s' = s\<lparr>calls := calls s @ [ShowObj t i]\<rparr>"
              by (auto simp: get_object_from_id_def)
            with m(1) show ?thesis by simp
          next
            case o: (Inr obj)
            with g ni Some Inr True
            have r: "r = py_get obj t"
              and s': "s' = s\<lparr>calls := calls s @ [ShowObj t i],
                  cache := AList.update t (AList.update k obj tc) (cache s)\<rparr>"
              by (auto simp: get_object_from_id_def)
            have "once_inv s'" if "\<not> isl r"
            proof -
              from that r obtain v where "py_get obj t = Inr v"
                by (cases "py_get obj t") simp_all
              then have "obj \<noteq> PNone" by (rule py_get_Inr_not_None)
              from m(2) [OF this] s' show ?thesis by simp
            qed
            with m(1) s' show ?thesis by simp
          qed
        qed
      qed
    qed
  qed
qed

lemma get_from_id_hoare:
  assumes "\<And>s. I s \<Longrightarrow> W s" and "hoare I W (get_object_from_id env t i)"
  shows "hoare I W (get_from_id env t i)"
  unfolding get_from_id_def
  by (intro hoare_bindM hoare_if hoare_liftM hoare_returnM assms)

lemma get_from_type_hoare:
  assumes "\<And>s. I s \<Longrightarrow> W s" and "\<And>i. hoare I W (get_object_from_id env t i)"
  shows "hoare I W (get_from_type env t host)"
  unfolding get_from_type_def
  by (intro hoare_bindM hoare_liftM get_from_id_hoare assms)

lemma resolve_fields_hoare:
  assumes "\<And>s. I s \<Longrightarrow> W s"
    and "\<And>k. k \<in> set ks \<Longrightarrow> hoare I W (get_from_type env k meta)"
  shows "hoare I W (resolve_fields env meta ks d)"
  using assms(2)
proof (induction ks arbitrary: d)
  case Nil
  show ?case by (simp add: hoare_returnM assms(1))
next
  case (Cons k ks)
  show ?case
    unfolding resolve_fields.simps
    by (rule hoare_bindM) (simp add: Cons.prems, simp add: Cons)
qed

lemma describe_host_hoare:
  assumes "\<And>s. I s \<Longrightarrow> W s"
    and "\<And>k. k \<in> set fk_types \<Longrightarrow> hoare I W (get_from_type env k meta)"
  shows "hoare I W (describe_host env meta)"
  unfolding describe_host_def
  by (intro hoare_bindM hoare_liftM hoare_returnM resolve_fields_hoare assms(1))
     (auto simp: fk_types_def intro: assms(2))

lemma group_hosts_hoare:
  assumes "\<And>s. I s \<Longrightarrow> W s" and "\<And>i. hoare I W (get_from_id env ''hostgroup'' i)"
  shows "hoare I W (group_hosts env hosts gs)"
proof (induction hosts arbitrary: gs)
  case Nil
  show ?case by (simp add: hoare_returnM assms(1))
next
  case (Cons host rest)
  show ?case
    unfolding group_hosts.simps
    by (intro hoare_bindM hoare_liftM assms Cons)
qed

lemma once_inv_log [simp]: "once_inv (s\<lparr>info_log := l\<rparr>) = once_inv s"
  by (simp add: once_inv_def cached_def)

lemma get_host_info_once:
  "hoare once_inv (\<lambda>s. distinct (fetched (calls s))) (get_host_info env host_id)"
proof -
  have "hoare once_inv (\<lambda>s. distinct (fetched (calls s)))
     (bindM (get_object_from_id env ''host'' host_id) (\<lambda>meta.
       if meta = PNone then returnM [] else describe_host env meta))"
    by (intro hoare_bindM hoare_if hoare_returnM describe_host_hoare get_from_type_hoare
        get_object_from_id_once once_inv_weaken)
  then have h: "\<And>s r s'. once_inv s \<Longrightarrow>
      bindM (get_object_from_id env ''host'' host_id) (\<lambda>meta.
        if meta = PNone then returnM [] else describe_host env meta) s = (r, s') \<Longrightarrow>
      distinct (fetched (calls s')) \<and> (\<not> isl r \<longrightarrow> once_inv s')"
    unfolding hoare_def by blast
  show ?thesis
    unfolding hoare_def
  proof (intro allI impI)
    fix s r s'
    assume i: "once_inv s" and g: "get_host_info env host_id s = (r, s')"
    from i have "once_inv (s\<lparr>info_log := info_log s @ [host_id]\<rparr>)" by simp
    from h [OF this g [unfolded get_host_info_def]]
    show "distinct (fetched (calls s')) \<and> (\<not> isl r \<longrightarrow> once_inv s')" .
  qed
qed

lemma host_infos_once:
  "hoare once_inv (\<lambda>s. distinct (fetched (calls s))) (host_infos env hosts)"
proof (induction hosts)
  case Nil
  show ?case by (simp add: hoare_returnM once_inv_weaken)
next
  case (Cons host rest)
  show ?case
    unfolding host_infos.simps
    by (intro hoare_bindM hoare_returnM get_host_info_once Cons once_inv_weaken)
qed

lemma group_hosts_once:
  "hoare once_inv (\<lambda>s. distinct (fetched (calls s))) (group_hosts env hosts gs)"
  by (intro group_hosts_hoare get_from_id_hoare get_object_from_id_once once_inv_weaken)

lemma fetch_hosts_effect:
  assumes "fetch_hosts env page hosts s = Some y"
  shows "cache (snd y) = cache s \<and> info_log (snd y) = info_log s
   \<and> fetched (calls (snd y)) = fetched (calls s)"
proof (rule fetch_hosts.raw_induct [where P = "\<lambda>env page hosts s y.
    cache (snd y) = cache s \<and> info_log (snd y) = info_log s
    \<and> fetched (calls (snd y)) = fetched (calls s)", OF _ assms])
  fix f env page hosts s y
  assume IH: "\<And>env page hosts s y. f env page hosts s = Some y \<Longrightarrow>
      cache (snd y) = cache s \<and> info_log (snd y) = info_log s
      \<and> fetched (calls (snd y)) = fetched (calls s)"
    and b: "(case index_hosts env page of
        Inl e \<Rightarrow> Some (Inl e, s\<lparr>calls := calls s @ [IndexHosts page]\<rparr>)
      | Inr resp \<Rightarrow>
          if length resp < 1 then Some (Inr hosts, s\<lparr>calls := calls s @ [IndexHosts page]\<rparr>)
          else f env (page + 1) (hosts @ resp)
                 (s\<lparr>calls := calls s @ [IndexHosts page]\<rparr>)) = Some y"
  show "cache (snd y) = cache s \<and> info_log (snd y) = info_log s
      \<and> fetched (calls (snd y)) = fetched (calls s)"
  proof (cases "index_hosts env page")
    case (Inl e)
    with b show ?thesis by auto
  next
    case (Inr resp)
    show ?thesis
    proof (cases "length resp < 1")
      case True
      with Inr b show ?thesis by auto
    next
      case False
      with Inr b have "f env (page + 1) (hosts @ resp)
          (s\<lparr>calls := calls s @ [IndexHosts page]\<rparr>) = Some y"
        by simp
      from IH [OF this] show ?thesis by simp
    qed
  qed
qed

lemma once_inv_cong:
  "cache s' = cache s \<Longrightarrow> fetched (calls s') = fetched (calls s) \<Longrightarrow> once_inv s' = once_inv s"
  by (simp add: once_inv_def cached_def)

lemma once_inv_init: "once_inv init_state"
  by (simp add: once_inv_def init_state_def)

lemma hoareE:
  assumes "hoare I W m" and "I s" and "m s = (r, s')"
  shows "W s' \<and> (\<not> isl r \<longrightarrow> I s')"
  using assms unfolding hoare_def by blast

lemma get_inventory_once:
  assumes i: "once_inv s" and g: "get_inventory env s = Some (r, s')"
  shows "distinct (fetched (calls s')) \<and> (\<not> isl r \<longrightarrow> once_inv s')"
proof (cases "fetch_hosts env 1 [] s")
  case None
  with g show ?thesis by (simp add: get_inventory_def)
next
  case (Some y)
  obtain r1 s1 where y: "y = (r1, s1)" by (cases y)
  from fetch_hosts_effect [OF Some] y
  have "cache s1 = cache s" "fetched (calls s1) = fetched (calls s)" by simp_all
  then have "once_inv s1 = once_inv s" by (rule once_inv_cong)
  with i have i1: "once_inv s1" by simp
  show ?thesis
  proof (cases r1)
    case (Inl e)
    with g Some y have "s' = s1" by (simp add: get_inventory_def)
    with i1 show ?thesis by (simp add: once_inv_weaken)
  next
    case (Inr hosts)
    show ?thesis
    proof (cases "length hosts < 1")
      case True
      with g Some y Inr have "s' = s1" by (simp add: get_inventory_def)
      with i1 show ?thesis by (simp add: once_inv_weaken)
    next
      case False
      with g Some y Inr have "group_hosts env hosts [] s1 = (r, s')"
        by (simp add: get_inventory_def)
      from hoareE [OF group_hosts_once i1 this] show ?thesis .
    qed
  qed
qed

lemma get_all_once:
  assumes i: "once_inv s" and g: "get_all env s = Some (r, s')"
  shows "distinct (fetched (calls s')) \<and> (\<not> isl r \<longrightarrow> once_inv s')"
proof (cases "get_inventory env s")
  case None
  with g show ?thesis by (simp add: get_all_def)
next
  case (Some y)
  obtain r1 s1 where y: "y = (r1, s1)" by (cases y)
  from get_inventory_once [OF i] Some y
  have 1: "distinct (fetched (calls s1)) \<and> (\<not> isl r1 \<longrightarrow> once_inv s1)" by simp
  show ?thesis
  proof (cases r1)
    case (Inl e)
    with g Some y have "s' = s1" "r = Inl e" by (simp_all add: get_all_def)
    with 1 show ?thesis by simp
  next
    case (Inr gs)
    with 1 have i1: "once_inv s1" by simp
    have h: "hoare once_inv (\<lambda>s. distinct (fetched (calls s)))
        (bindM (liftM (collect_hosts gs [])) (\<lambda>hosts.
         bindM (host_infos env hosts) (\<lambda>hostvars.
           returnM (AList.update (KStr ''_meta'') (MetaDict [(''hostvars'', hostvars)]) gs))))"
      by (intro hoare_bindM hoare_liftM hoare_returnM host_infos_once once_inv_weaken)
    from g Some y Inr have "bindM (liftM (collect_hosts gs [])) (\<lambda>hosts.
         bindM (host_infos env hosts) (\<lambda>hostvars.
           returnM (AList.update (KStr ''_meta'') (MetaDict [(''hostvars'', hostvars)]) gs))) s1
        = (r, s')"
      by (simp add: get_all_def)
    from hoareE [OF h i1 this] show ?thesis .
  qed
qed

lemma run_operation_once:
  assumes i: "once_inv s" and g: "run_operation env op s = Some (r, s')"
  shows "distinct (fetched (calls s'))"
proof (cases op)
  case OpAll
  with g obtain r0 where "get_all env s = Some (r0, s')"
    by (auto simp: run_operation_def)
  from get_all_once [OF i this] show ?thesis by simp
next
  case (OpHost h)
  with g obtain r0 where "get_host_info env (PStr h) s = (r0, s')"
    by (auto simp: run_operation_def split: prod.splits)
  from hoareE [OF get_host_info_once i this] show ?thesis by simp
next
  case OpList
  with g obtain r0 where "get_inventory env s = Some (r0, s')"
    by (auto simp: run_operation_def)
  from get_inventory_once [OF i this] show ?thesis by simp
next
  case OpEmpty
  with g i show ?thesis by (simp add: run_operation_def once_inv_weaken)
qed

lemma get_object_from_id_cached:
  assumes "map_of (cache s) t = Some tc" and "map_of tc k = Some obj" and "obj \<noteq> PNone"
    and "py_key i = Inr k" and "i \<noteq> PNone"
  shows "get_object_from_id env t i s = (py_get obj t, s)"
  using assms by (simp add: get_object_from_id_def)

lemma get_object_from_id_again:
  assumes "get_object_from_id env t i s = (Inr v, s1)"
  shows "get_object_from_id env t i s1 = (Inr v, s1)"
proof (cases "i = PNone")
  case True
  with assms show ?thesis by (simp add: get_object_from_id_def)
next
  case ni: False
  from assms ni obtain tc where tc: "map_of (cache s) t = Some tc"
    by (auto simp: get_object_from_id_def split: option.splits)
  from assms ni tc obtain k where k: "py_key i = Inr k"
    by (auto simp: get_object_from_id_def split: sum.splits)
  show ?thesis
  proof (cases "map_of tc k = None \<or> map_of tc k = Some PNone")
    case False
    then obtain obj where o: "map_of tc k = Some obj" "obj \<noteq> PNone" by auto
    from get_object_from_id_cached [OF tc o k ni, of env] assms
    have "s1 = s" "py_get obj t = Inr v" by simp_all
    with get_object_from_id_cached [OF tc o k ni, of env] show ?thesis by simp
  next
    case True
    with assms ni tc k obtain obj where
      r: "py_get obj t = Inr v"
      and s1: "s1 = s\<lparr>calls := calls s @ [ShowObj t i],
                  cache := AList.update t (AList.update k obj tc) (cache s)\<rparr>"
      by (auto simp: get_object_from_id_def split: sum.splits)
    from r have "obj \<noteq> PNone" by (rule py_get_Inr_not_None)
    moreover from s1 have "map_of (cache s1) t = Some (AList.update k obj tc)"
      by (simp add: AList.update_conv')
    moreover have "map_of (AList.update k obj tc) k = Some obj"
      by (simp add: AList.update_conv')
    ultimately have "get_object_from_id env t i s1 = (py_get obj t, s1)"
      using k ni by (intro get_object_from_id_cached) simp_all
    with r show ?thesis by simp
  qed
qed

text \<open>
  C1: in a run of any of the operations on a fresh \<open>ForemanInventory\<close>, whatever its
  outcome, no two calls \<open>show_<t>s(i)\<close> have the same type and the same key \<open>i\<close>. A
  resolution that has succeeded, asked again, returns the same object and leaves the
  state (so the list of client calls) as it is; more generally a pair whose cache entry
  is not \<open>None\<close> is answered from the cache without a call.
\<close>

theorem fetch_at_most_once:
  "(run_operation env op init_state = Some (r, s') \<longrightarrow> distinct (fetched (calls s')))
   \<and> (get_object_from_id env t i s = (Inr v, s1) \<longrightarrow>
        get_object_from_id env t i s1 = (Inr v, s1))
   \<and> (map_of (cache s) t = Some tc \<and> map_of tc k = Some obj \<and> obj \<noteq> PNone
        \<and> py_key i = Inr k \<and> i \<noteq> PNone \<longrightarrow>
        get_object_from_id env t i s = (py_get obj t, s))"
proof (intro conjI impI)
  assume "run_operation env op init_state = Some (r, s')"
  with once_inv_init show "distinct (fetched (calls s'))" by (rule run_operation_once)
next
  assume "get_object_from_id env t i s = (Inr v, s1)"
  then show "get_object_from_id env t i s1 = (Inr v, s1)" by (rule get_object_from_id_again)
next
  assume h: "map_of (cache s) t = Some tc \<and> map_of tc k = Some obj \<and> obj \<noteq> PNone
        \<and> py_key i = Inr k \<and> i \<noteq> PNone"
  from h have 1: "map_of (cache s) t = Some tc" by simp
  from h have 2: "map_of tc k = Some obj" by simp
  from h have 3: "obj \<noteq> PNone" by simp
  from h have 4: "py_key i = Inr k" by simp
  from h have 5: "i \<noteq> PNone" by simp
  from 1 2 3 4 5 show "get_object_from_id env t i s = (py_get obj t, s)"
    by (rule get_object_from_id_cached)
qed

text \<open>
  In all mode on the small instance the hostgroup 5 is resolved twice (for the grouping
  and for the description of \<open>web1\<close>) and fetched once.
\<close>

theorem fetch_at_most_once_witness:
  "map_option (\<lambda>p. fetched (calls (snd p))) (run_operation demo_env OpAll init_state)
     = Some demo_fetched
   \<and> distinct demo_fetched"
proof -
  let ?p = "the (run_operation demo_env OpAll init_state)"
  have e: "map_option (\<lambda>p. fetched (calls (snd p))) (run_operation demo_env OpAll init_state)
     = Some demo_fetched"
    by code_simp
  then have h: "run_operation demo_env OpAll init_state = Some (fst ?p, snd ?p)"
    by (cases "run_operation demo_env OpAll init_state") simp_all
  from e h have f: "fetched (calls (snd ?p)) = demo_fetched"
    by (cases "run_operation demo_env OpAll init_state") simp_all
  from fetch_at_most_once [of demo_env OpAll "fst ?p" "snd ?p"] h
  have "distinct (fetched (calls (snd ?p)))" by blast
  with e f show ?thesis by simp
qed

section \<open>Display names\<close>



section \<open>Reading the settings\<close>

text \<open>
  \<open>config.get\<close> never returns \<open>None\<close>: the test at line 113 never succeeds, the list
  \<open>missing\<close> stays empty and the descriptive exception of line 117 is never raised.
\<close>

lemma config_get_not_None: "config_get cfg sec opt \<noteq> Inr PNone"
  by (simp add: config_get_def split: option.splits)

lemma read_required_missing:
  "read_required cfg ks settings missing = Inr (settings', missing') \<Longrightarrow> missing' = missing"
proof (induction ks arbitrary: settings missing)
  case Nil
  then show ?case by simp
next
  case (Cons k ks)
  then show ?case
    using config_get_not_None [of cfg "''foreman''" k]
    by (auto simp: bindS_def split: sum.splits if_splits)
qed

lemma read_required_not_descriptive: "read_required cfg ks st ms \<noteq> Inl (Exception m)"
  by (induction ks arbitrary: st ms)
     (auto simp: bindS_def config_get_def split: sum.splits option.splits)

lemma read_settings_aux:
  "bindS (read_required cfg ks [] [])
     (\<lambda>(settings, missing). if missing \<noteq> [] then Inl (Exception (f missing)) else Inr settings)
   \<noteq> Inl (Exception msg)"
proof (cases "read_required cfg ks [] []")
  case (Inl e)
  with read_required_not_descriptive [of cfg ks "[]" "[]"] show ?thesis
    by (auto simp: bindS_def)
next
  case (Inr p)
  then show ?thesis
    using read_required_missing [of cfg ks "[]" "[]" "fst p" "snd p"]
    by (cases p) (simp add: bindS_def)
qed

lemma read_settings_never_descriptive: "read_settings cfg \<noteq> Inl (Exception msg)"
  unfolding read_settings_def by (rule read_settings_aux)

text \<open>
  C7: with \<open>base_url\<close> and \<open>password\<close> both absent from the section \<open>foreman\<close>,
  \<open>read_settings\<close> ends in the \<open>NoOptionError\<close> of the first absent option; \<open>password\<close>
  is not named.
\<close>

theorem read_settings_names_first_missing_only:
  "read_settings \<lparr>defaults = [], sections = [(''foreman'', [(''username'', ''admin'')])]\<rparr>
     = Inl (NoOptionError ''base_url'' ''foreman'')"
  by (simp add: read_settings_def bindS_def config_get_def)

section \<open>Absent foreign keys\<close>

lemma get_host_info_no_hostgroup_call:
  assumes m: "fst (get_object_from_id env ''host'' host_id s) = Inr meta"
    and a: "py_get meta ''hostgroup_id'' = Inr PNone"
  shows "calls_ext (\<lambda>c. \<forall>i. c \<noteq> ShowObj ''hostgroup'' i) s (snd (get_host_info env host_id s))"
proof -
  let ?P = "\<lambda>c. \<forall>i. c \<noteq> ShowObj ''hostgroup'' i"
  let ?s1 = "snd (get_object_from_id env ''host'' host_id s)"
  let ?s1' = "?s1\<lparr>info_log := info_log s @ [host_id]\<rparr>"
  from a have ne: "meta \<noteq> PNone" by auto
  have "stable (calls_ext ?P) (get_object_from_id env ''host'' host_id)"
    by (rule get_object_from_id_calls) simp
  then have "calls_ext ?P s ?s1"
    by (rule stableD)
  then have 1: "calls_ext ?P s ?s1'" by (simp add: calls_ext_def)
  have "stable (calls_ext ?P) (get_from_type env k meta)" if "k \<in> set fk_types" for k
  proof (cases "k = ''hostgroup''")
    case True
    with a show ?thesis by (simp add: get_from_type_absent_stable)
  next
    case False
    show ?thesis
    proof (rule get_from_type_calls)
      fix i
      from False show "\<forall>j. ShowObj k i \<noteq> ShowObj ''hostgroup'' j" by simp
    qed
  qed
  then have "stable (calls_ext ?P) (describe_host env meta)"
    by (intro describe_host_stable calls_ext_refl) (erule (1) calls_ext_trans)
  then have 2: "calls_ext ?P ?s1' (snd (describe_host env meta ?s1'))"
    by (rule stableD)
  from 1 2 show ?thesis
    unfolding get_host_info_found [OF m ne] by (rule calls_ext_trans)
qed

text \<open>
  C5: resolving the id \<open>None\<close> returns \<open>None\<close> and leaves the state as it is, so no
  client call is made, for every type; the same holds for \<open>_get_from_type\<close> on a record
  whose \<open><type>_id\<close> field is absent. For a host record without \<open>hostgroup_id\<close>, the
  calls \<open>get_host_info\<close> adds contain no \<open>show_hostgroups\<close>, whatever the outcome, and the
  description it returns has \<open>hostgroup: None\<close>.
\<close>

theorem absent_id_never_fetched:
  "get_object_from_id env t PNone s = (Inr PNone, s)
   \<and> (py_get host (t @ ''_id'') = Inr PNone \<longrightarrow> get_from_type env t host s = (Inr PNone, s))
   \<and> (fst (get_object_from_id env ''host'' host_id s) = Inr meta
        \<and> py_get meta ''hostgroup_id'' = Inr PNone \<longrightarrow>
      calls_ext (\<lambda>c. \<forall>i. c \<noteq> ShowObj ''hostgroup'' i) s (snd (get_host_info env host_id s))
      \<and> (\<forall>d. fst (get_host_info env host_id s) = Inr d \<longrightarrow> map_of d ''hostgroup'' = Some PNone))"
proof (intro conjI impI allI)
  show "get_object_from_id env t PNone s = (Inr PNone, s)"
    by (rule get_object_from_id_None)
next
  assume "py_get host (t @ ''_id'') = Inr PNone"
  then show "get_from_type env t host s = (Inr PNone, s)"
    by (rule get_from_type_absent)
next
  assume h: "fst (get_object_from_id env ''host'' host_id s) = Inr meta
        \<and> py_get meta ''hostgroup_id'' = Inr PNone"
  from h have m: "fst (get_object_from_id env ''host'' host_id s) = Inr meta" by simp
  from h have a: "py_get meta ''hostgroup_id'' = Inr PNone" by simp
  from m a
  show "calls_ext (\<lambda>c. \<forall>i. c \<noteq> ShowObj ''hostgroup'' i) s (snd (get_host_info env host_id s))"
    by (rule get_host_info_no_hostgroup_call)
next
  fix d
  assume h: "fst (get_object_from_id env ''host'' host_id s) = Inr meta
        \<and> py_get meta ''hostgroup_id'' = Inr PNone"
    and d: "fst (get_host_info env host_id s) = Inr d"
  from h have ne: "meta \<noteq> PNone" by auto
  from h have m: "fst (get_object_from_id env ''host'' host_id s) = Inr meta" by simp
  from d have "describe_host env meta
       ((snd (get_object_from_id env ''host'' host_id s))\<lparr>info_log := info_log s @ [host_id]\<rparr>)
       = (Inr d, snd (get_host_info env host_id s))"
    unfolding get_host_info_found [OF m ne] by (simp add: prod_eq_iff)
  moreover have "''hostgroup'' \<in> set [''model'', ''compute_resource'', ''domain'', ''subnet'',
      ''architecture'', ''hostgroup'']" by simp
  moreover from h have "py_get meta (''hostgroup'' @ ''_id'') = Inr PNone" by simp
  ultimately show "map_of d ''hostgroup'' = Some PNone"
    by (rule describe_host_fk)
qed

text \<open>The host \<open>db1\<close> has no \<open>hostgroup_id\<close>: the only call is \<open>show_hosts('db1')\<close>.\<close>

theorem absent_id_never_fetched_witness:
  "fst (get_object_from_id demo_env ''host'' (PStr ''db1'') init_state) = Inr (PDict db1)
   \<and> py_get (PDict db1) ''hostgroup_id'' = Inr PNone
   \<and> calls (snd (get_host_info demo_env (PStr ''db1'') init_state)) = [ShowObj ''host'' (PStr ''db1'')]
   \<and> fst (get_host_info demo_env (PStr ''db1'') init_state) = Inr demo_db1_desc
   \<and> map_of demo_db1_desc ''hostgroup'' = Some PNone"
proof -
  have a: "fst (get_object_from_id demo_env ''host'' (PStr ''db1'') init_state) = Inr (PDict db1)"
    by code_simp
  have b: "py_get (PDict db1) ''hostgroup_id'' = Inr PNone"
    by code_simp
  have c: "calls (snd (get_host_info demo_env (PStr ''db1'') init_state)) = [ShowObj ''host'' (PStr ''db1'')]"
    by code_simp
  have d: "fst (get_host_info demo_env (PStr ''db1'') init_state) = Inr demo_db1_desc"
    by code_simp
  from absent_id_never_fetched [of demo_env "''hostgroup''" init_state "PDict db1" "PStr ''db1''" "PDict db1"]
    a b c d
  show ?thesis by simp
qed

section \<open>Missing entities\<close>



section \<open>The environment of a host\<close>

text \<open>
  C9: in every description \<open>get_host_info\<close> returns for a host record, the field
  \<open>environment\<close> is the lower-cased \<open>environment.environment.name\<close> of the record, and
  is left out when a level of that path is absent or not of the expected kind. The
  lookup raises nothing: a record without foreign keys is described successfully
  whatever its \<open>environment\<close> field holds.
\<close>

theorem environment_lookup_is_guarded:
  "(fst (get_object_from_id env ''host'' host_id s) = Inr (PDict meta)
      \<and> fst (get_host_info env host_id s) = Inr d \<longrightarrow>
    map_of d ''environment'' = spec_environment meta)
   \<and> (fst (get_object_from_id env ''host'' host_id s) = Inr (PDict meta)
        \<and> (\<forall>k\<in>set fk_types. dict_get meta (k @ ''_id'') = PNone) \<longrightarrow>
      (\<exists>d'. fst (get_host_info env host_id s) = Inr d'
          \<and> map_of d' ''environment'' = spec_environment meta))"
proof (intro conjI impI)
  assume h: "fst (get_object_from_id env ''host'' host_id s) = Inr (PDict meta)
      \<and> fst (get_host_info env host_id s) = Inr d"
  then have m: "fst (get_object_from_id env ''host'' host_id s) = Inr (PDict meta)" by simp
  have ne: "PDict meta \<noteq> PNone" by simp
  from h have "describe_host env (PDict meta)
       ((snd (get_object_from_id env ''host'' host_id s))\<lparr>info_log := info_log s @ [host_id]\<rparr>)
       = (Inr d, snd (get_host_info env host_id s))"
    unfolding get_host_info_found [OF m ne] by (simp add: prod_eq_iff)
  then show "map_of d ''environment'' = spec_environment meta"
    by (rule describe_host_environment)
next
  assume h: "fst (get_object_from_id env ''host'' host_id s) = Inr (PDict meta)
        \<and> (\<forall>k\<in>set fk_types. dict_get meta (k @ ''_id'') = PNone)"
  let ?s1 = "(snd (get_object_from_id env ''host'' host_id s))\<lparr>info_log := info_log s @ [host_id]\<rparr>"
  from h have m: "fst (get_object_from_id env ''host'' host_id s) = Inr (PDict meta)" by simp
  from h have fk: "\<forall>k\<in>set fk_types. dict_get meta (k @ ''_id'') = PNone" by simp
  from describe_host_all_absent [OF fk] obtain d' where
    d: "describe_host env (PDict meta) ?s1 = (Inr d', ?s1)" by blast
  have "get_host_info env host_id s = (Inr d', ?s1)"
    using get_host_info_found [OF m] d by simp
  with describe_host_environment [OF d]
  show "\<exists>d'. fst (get_host_info env host_id s) = Inr d'
          \<and> map_of d' ''environment'' = spec_environment meta"
    by auto
qed

text \<open>The host \<open>web1\<close> is in \<open>PRODUCTION\<close>; \<open>db1\<close> has no environment.\<close>

theorem environment_lookup_is_guarded_witness:
  "fst (get_object_from_id demo_env ''host'' (PStr ''web1'') init_state) = Inr (PDict web1)
   \<and> fst (get_host_info demo_env (PStr ''web1'') init_state) = Inr demo_web1_desc
   \<and> spec_environment web1 = Some (PStr ''production'')
   \<and> map_of demo_web1_desc ''environment'' = Some (PStr ''production'')
   \<and> fst (get_object_from_id demo_env ''host'' (PStr ''db1'') init_state) = Inr (PDict db1)
   \<and> map (\<lambda>k. dict_get db1 (k @ ''_id'')) fk_types = [PNone, PNone, PNone, PNone, PNone, PNone, PNone]
   \<and> spec_environment db1 = None
   \<and> fst (get_host_info demo_env (PStr ''db1'') init_state) = Inr demo_db1_desc
   \<and> map_of demo_db1_desc ''environment'' = None"
proof -
  have a: "fst (get_object_from_id demo_env ''host'' (PStr ''web1'') init_state) = Inr (PDict web1)"
    by code_simp
  have b: "fst (get_host_info demo_env (PStr ''web1'') init_state) = Inr demo_web1_desc"
    by code_simp
  have c: "spec_environment web1 = Some (PStr ''production'')"
    by code_simp
  have a': "fst (get_object_from_id demo_env ''host'' (PStr ''db1'') init_state) = Inr (PDict db1)"
    by code_simp
  have f: "map (\<lambda>k. dict_get db1 (k @ ''_id'')) fk_types = [PNone, PNone, PNone, PNone, PNone, PNone, PNone]"
    by code_simp
  then have f': "\<forall>k\<in>set fk_types. dict_get db1 (k @ ''_id'') = PNone"
    by (simp add: fk_types_def)
  have c': "spec_environment db1 = None"
    by code_simp
  have b': "fst (get_host_info demo_env (PStr ''db1'') init_state) = Inr demo_db1_desc"
    by code_simp
  from environment_lookup_is_guarded [of demo_env "PStr ''web1''" init_state web1 demo_web1_desc] a b c
  have 1: "map_of demo_web1_desc ''environment'' = Some (PStr ''production'')" by simp
  from environment_lookup_is_guarded [of demo_env "PStr ''db1''" init_state db1 demo_db1_desc] a' f' b' c'
  have 2: "map_of demo_db1_desc ''environment'' = None" by simp
  from a b c 1 a' f c' b' 2 show ?thesis by blast
qed

section \<open>Where \<open>_meta\<close> appears\<close>

lemma describe_host_keys:
  assumes "describe_host env meta s = (Inr d, s')"
  shows "fst ` set d \<subseteq> set host_keys"
  using assms
proof (cases rule: describe_host_InrE)
  case (1 d1 d2 d3 os ip s2)
  from copy_fields_keys [OF 1(1)]
  have k1: "fst ` set d1 = {''id'', ''ip'', ''name'', ''status''}" by auto
  from resolve_fields_keys [OF 1(2)] k1
  have k2: "fst ` set d2 = {''id'', ''ip'', ''name'', ''status'', ''model'', ''compute_resource'',
      ''domain'', ''subnet'', ''architecture'', ''hostgroup''}" by auto
  from copy_fields_keys [OF 1(3)] k2
  have k3: "fst ` set d3 = {''id'', ''ip'', ''name'', ''status'', ''model'', ''compute_resource'',
      ''domain'', ''subnet'', ''architecture'', ''hostgroup'', ''created'', ''updated''}" by auto
  have "fst ` set d \<subseteq> insert ''ansible_ssh_host'' (insert ''environment'' (insert ''os'' (fst ` set d3)))"
    using set_environment_keys [of meta "AList.update ''os'' os d3"]
    unfolding 1(6) by (auto simp: AList.dom_update)
  with k3 show ?thesis unfolding host_keys_def by auto
qed

lemma get_host_info_keys:
  assumes "get_host_info env host_id s = (Inr d, s')"
  shows "fst ` set d \<subseteq> set host_keys"
  using assms
proof (cases rule: get_host_info_InrE)
  case missing
  then show ?thesis by simp
next
  case (found meta s1)
  from describe_host_keys [OF found(3)] show ?thesis .
qed

text \<open>
  C8, as the code has it: \<open>get_all\<close> puts the dictionary \<open>{'hostvars': ...}\<close> under
  \<open>_meta\<close>; every value of the dictionary \<open>get_inventory\<close> returns is a list of host
  names, so list mode carries no \<open>hostvars\<close> mapping, empty or not; the description
  \<open>get_host_info\<close> returns has no \<open>_meta\<close> key.
\<close>

theorem meta_only_in_all_mode:
  "(map_option fst (get_all env s) = Some (Inr res) \<longrightarrow>
      (\<exists>hostvars. map_of res (KStr ''_meta'') = Some (MetaDict [(''hostvars'', hostvars)])))
   \<and> (map_option fst (get_inventory env s) = Some (Inr gs) \<longrightarrow>
      (\<forall>v\<in>snd ` set gs. \<exists>names. v = HostNames names))
   \<and> (fst (get_host_info env host_id s) = Inr d \<longrightarrow> map_of d ''_meta'' = None)"
proof (intro conjI impI)
  assume "map_option fst (get_all env s) = Some (Inr res)"
  then obtain s' where "get_all env s = Some (Inr res, s')" by auto
  then show "\<exists>hostvars. map_of res (KStr ''_meta'') = Some (MetaDict [(''hostvars'', hostvars)])"
    by (elim get_all_InrE) (simp add: AList.update_conv')
next
  assume "map_option fst (get_inventory env s) = Some (Inr gs)"
  then obtain s' where "get_inventory env s = Some (Inr gs, s')" by auto
  then show "\<forall>v\<in>snd ` set gs. \<exists>names. v = HostNames names"
    by (rule get_inventory_values)
next
  assume "fst (get_host_info env host_id s) = Inr d"
  then obtain s' where "get_host_info env host_id s = (Inr d, s')"
    by (cases "get_host_info env host_id s") simp
  from get_host_info_keys [OF this] have "''_meta'' \<notin> fst ` set d"
    unfolding host_keys_def by auto
  then show "map_of d ''_meta'' = None" by (rule map_of_None_keys)
qed

text \<open>The three operations on the small instance.\<close>

theorem meta_only_in_all_mode_witness:
  "map_option fst (get_all demo_env init_state) = Some (Inr demo_all)
   \<and> map_of demo_all (KStr ''_meta'') = Some (MetaDict [(''hostvars'', demo_hostvars)])
   \<and> map_option fst (get_inventory demo_env init_state) = Some (Inr demo_groups)
   \<and> map snd demo_groups = [HostNames [PStr ''web1''], HostNames [PStr ''db1'']]
   \<and> fst (get_host_info demo_env (PStr ''db1'') init_state) = Inr demo_db1_desc
   \<and> map_of demo_db1_desc ''_meta'' = None"
proof -
  have a: "map_option fst (get_all demo_env init_state) = Some (Inr demo_all)"
    by code_simp
  have b: "map_option fst (get_inventory demo_env init_state) = Some (Inr demo_groups)"
    by code_simp
  have c: "fst (get_host_info demo_env (PStr ''db1'') init_state) = Inr demo_db1_desc"
    by code_simp
  from meta_only_in_all_mode [of demo_env init_state demo_all demo_groups "PStr ''db1''" demo_db1_desc]
    a b c
  show ?thesis by (simp add: demo_all_def demo_groups_def)
qed

text \<open>
  In list mode the small instance yields the two groups and nothing under \<open>_meta\<close>:
  the dictionary of \<open>_empty_inventory\<close> is stored in \<open>self.inventory\<close> and never returned.
\<close>

theorem list_mode_without_meta_counterexample:
  "map_option fst (get_inventory demo_env init_state) = Some (Inr demo_groups)
   \<and> map_of demo_groups (KStr ''_meta'') = None"
  by code_simp

section \<open>Dispatch\<close>

lemma parse_args_keeps_list:
  "parse_args argv vals = Inr args \<Longrightarrow> opt_list vals \<Longrightarrow> opt_list args"
proof (induction argv arbitrary: vals rule: length_induct)
  case (1 argv)
  have IH: "\<And>ys v. length ys < length argv \<Longrightarrow> parse_args ys v = Inr args \<Longrightarrow> opt_list v \<Longrightarrow> opt_list args"
    using "1.IH" by blast
  show ?case
  proof (cases argv)
    case Nil
    with "1.prems" show ?thesis by simp
  next
    case (Cons arg rargs)
    have r: "parse_args rargs v = Inr args \<Longrightarrow> opt_list v \<Longrightarrow> opt_list args" for v
      using IH [of rargs v] Cons by simp
    have r2: "parse_args rest v = Inr args \<Longrightarrow> rargs = x # rest \<Longrightarrow> opt_list v \<Longrightarrow> opt_list args"
      for v x rest
      using IH [of rest v] Cons by simp
    from "1.prems"(1) have "parse_args (arg # rargs) vals = Inr args" using Cons by simp
    then show ?thesis
      using "1.prems"(2)
      apply (simp split: if_splits sum.splits option.splits list.splits)
         apply (erule r2, assumption, simp)
        apply (erule r, simp)
       apply (erule r, simp)
      apply (erule r, simp)
      apply (erule r, simp)
      done
  qed
qed

text \<open>
  C10: \<open>--list\<close> starts as \<open>True\<close> and no option clears it, so whenever the arguments
  parse the dispatch selects \<open>get_all\<close>, \<open>get_host_info\<close> or \<open>get_inventory\<close>, never the
  final \<open>else\<close>; no run prints the empty mapping of that branch.
\<close>

theorem fallback_unreachable:
  "(\<forall>args. parse_cli_args argv = Inr args \<longrightarrow> opt_list args \<and> dispatch args \<noteq> OpEmpty)
   \<and> cli_main env cfg argv \<noteq> Some (Inr OutEmpty)"
proof -
  have a: "opt_list args \<and> dispatch args \<noteq> OpEmpty" if "parse_cli_args argv = Inr args" for args
  proof -
    from that have "opt_list args"
      unfolding parse_cli_args_def by (rule parse_args_keeps_list) (simp add: default_args_def)
    then show ?thesis by (simp add: dispatch_def)
  qed
  have ms1: "map_sum id OutAll r \<noteq> Inr OutEmpty" for r :: "error + inventory"
    by (cases r) simp_all
  have ms2: "map_sum id OutHost r \<noteq> Inr OutEmpty" for r :: "error + host_desc"
    by (cases r) simp_all
  have ms3: "map_sum id OutList r \<noteq> Inr OutEmpty" for r :: "error + inventory"
    by (cases r) simp_all
  note ms = ms1 ms2 ms3
  have b: "map_option fst (run_operation env op s) \<noteq> Some (Inr OutEmpty)" if "op \<noteq> OpEmpty" for op s
  proof (cases op)
    case OpAll
    then show ?thesis
      by (cases "get_all env s") (auto simp: run_operation_def ms split: prod.splits)
  next
    case (OpHost h)
    then show ?thesis
      by (cases "get_host_info env (PStr h) s") (auto simp: run_operation_def ms)
  next
    case OpList
    then show ?thesis
      by (cases "get_inventory env s") (auto simp: run_operation_def ms split: prod.splits)
  next
    case OpEmpty
    with that show ?thesis by simp
  qed
  have "cli_main env cfg argv \<noteq> Some (Inr OutEmpty)"
  proof (cases "read_settings cfg")
    case (Inl e)
    then show ?thesis by (simp add: cli_main_def)
  next
    case st: (Inr settings)
    show ?thesis
    proof (cases "parse_cli_args argv")
      case (Inl e)
      with st show ?thesis by (simp add: cli_main_def)
    next
      case (Inr args)
      with a have "dispatch args \<noteq> OpEmpty" by simp
      with st Inr b [of "dispatch args"] show ?thesis
        by (simp add: cli_main_def split: sum.splits)
    qed
  qed
  with a show ?thesis by blast
qed

text \<open>The arguments \<open>--host web1\<close> select \<open>get_host_info\<close>.\<close>

theorem fallback_unreachable_witness:
  "parse_cli_args [''--host'', ''web1''] =
     Inr \<lparr>opt_list = True, opt_host = Some ''web1'', opt_all = False\<rparr>
   \<and> dispatch \<lparr>opt_list = True, opt_host = Some ''web1'', opt_all = False\<rparr> = OpHost ''web1''
   \<and> dispatch \<lparr>opt_list = True, opt_host = Some ''web1'', opt_all = False\<rparr> \<noteq> OpEmpty"
proof -
  have h: "parse_cli_args [''--host'', ''web1''] =
     Inr \<lparr>opt_list = True, opt_host = Some ''web1'', opt_all = False\<rparr>"
    by code_simp
  from fallback_unreachable [of "[''--host'', ''web1'']"] h show ?thesis
    by (simp add: dispatch_def)
qed

end
